theory Spec2Isabelle
  imports Main "HOL-Library.Sublist"
begin

section \<open>markdownd: the request handler of \<^verbatim>\<open>main.go\<close>\<close>

text \<open>
  The handler \<^verbatim>\<open>Server.ServeHTTP\<close> and its helper \<^verbatim>\<open>fileisgood\<close> are embedded as
  pure functions. Go strings and byte slices are lists of bytes (\<open>string\<close>). Everything
  the handler does to the outside (calls into the operating system and calls on the
  \<^verbatim>\<open>http.ResponseWriter\<close>) is recorded, in program order, as a list of events; what the
  outside answers is read from a \<open>world\<close> record. Log lines and the request id are not
  modelled: they never influence control flow or the response.
\<close>

subsection \<open>The \<^verbatim>\<open>strings\<close> functions the handler calls\<close>

type_synonym bytes = string

definition Contains :: "string \<Rightarrow> string \<Rightarrow> bool" where
  "Contains s substr = sublist substr s"

definition HasPrefix :: "string \<Rightarrow> string \<Rightarrow> bool" where
  "HasPrefix s pre = prefix pre s"

definition HasSuffix :: "string \<Rightarrow> string \<Rightarrow> bool" where
  "HasSuffix s suf = suffix suf s"

definition TrimSuffix :: "string \<Rightarrow> string \<Rightarrow> string" where
  "TrimSuffix s suf = (if HasSuffix s suf then take (length s - length suf) s else s)"

subsection \<open>The \<^verbatim>\<open>path/filepath\<close> functions (Unix)\<close>

text \<open>
  \<^verbatim>\<open>filepath.IsAbs\<close>, \<^verbatim>\<open>filepath.Clean\<close>, \<^verbatim>\<open>filepath.Join\<close> and \<^verbatim>\<open>filepath.Abs\<close> belong to
  the Go standard library, not to this repository. They are purely lexical (only
  \<^verbatim>\<open>Abs\<close> asks the system for the working directory), and are written out here after
  their documentation: \<^verbatim>\<open>Clean\<close> drops empty and \<^verbatim>\<open>.\<close> elements, lets an inner \<^verbatim>\<open>..\<close>
  cancel the element before it, drops \<^verbatim>\<open>..\<close> at the start of a rooted path, and turns
  the empty result into \<^verbatim>\<open>.\<close>.
\<close>

definition IsAbs :: "string \<Rightarrow> bool" where
  "IsAbs path = HasPrefix path ''/''"

text \<open>The elements of a path: the pieces between separators (never an empty list).\<close>

fun elems :: "string \<Rightarrow> string list" where
  "elems [] = [[]]"
| "elems (c # cs) =
     (if c = CHR ''/'' then [] # elems cs
      else (c # hd (elems cs)) # tl (elems cs))"

fun joinSlash :: "string list \<Rightarrow> string" where
  "joinSlash [] = []"
| "joinSlash [e] = e"
| "joinSlash (e # es) = e @ ''/'' @ joinSlash es"

text \<open>
  One element of the input meets the output built so far, kept as a stack with the last
  element first. A \<^verbatim>\<open>..\<close> backtracks over a real element; where there is none it is
  dropped on a rooted path and kept on a relative one.
\<close>

fun cleanStep :: "bool \<Rightarrow> string list \<Rightarrow> string \<Rightarrow> string list" where
  "cleanStep rooted out e =
     (if e = [] \<or> e = ''.'' then out
      else if e = ''..'' then
        (case out of
           [] \<Rightarrow> if rooted then [] else [''..'']
         | t # ts \<Rightarrow> if t = ''..'' then (if rooted then out else ''..'' # out) else ts)
      else e # out)"

definition Clean :: "string \<Rightarrow> string" where
  "Clean path =
     (if path = [] then ''.''
      else
        let rooted = IsAbs path;
            out = rev (foldl (cleanStep rooted) [] (elems path))
        in if rooted then ''/'' @ joinSlash out
           else if out = [] then ''.'' else joinSlash out)"

definition Join :: "string \<Rightarrow> string \<Rightarrow> string" where
  "Join a b =
     (if a \<noteq> [] then Clean (a @ ''/'' @ b)
      else if b \<noteq> [] then Clean b
      else [])"

subsection \<open>The outside: events and the world\<close>

datatype event =
    Getwd
  | Open string
  | EvalSymlinks string
  | ReadFile string
  | HeaderAdd string string
  | NotFound
  | Write bytes
  | ServeFile string

text \<open>
  What the system and the libraries answer during one request. \<open>openErr p\<close> is the
  error of \<^verbatim>\<open>os.Open(p)\<close> (\<open>None\<close>: the file opened); \<open>getwd\<close>, \<open>evalSymlinks\<close> and
  \<open>readFile\<close> are \<open>None\<close> where the call returns an error. Content sniffing
  (\<^verbatim>\<open>http.DetectContentType\<close>) and the markdown renderer (\<^verbatim>\<open>blackfriday.MarkdownCommon\<close>)
  are functions of the bytes alone.
\<close>

record world =
  getwd :: "string option"
  openErr :: "string \<Rightarrow> string option"
  evalSymlinks :: "string \<Rightarrow> string option"
  readFile :: "string \<Rightarrow> bytes option"
  detectContentType :: "bytes \<Rightarrow> string"
  markdownCommon :: "bytes \<Rightarrow> bytes"

definition Abs :: "world \<Rightarrow> string \<Rightarrow> event list \<times> string option" where
  "Abs w path =
     (if IsAbs path then ([], Some (Clean path))
      else case getwd w of
             None \<Rightarrow> ([Getwd], None)
           | Some wd \<Rightarrow> ([Getwd], Some (Join wd path)))"

subsection \<open>Program data\<close>

text \<open>The flag \<^verbatim>\<open>-index\<close> (a package variable), default \<^verbatim>\<open>index.md\<close>.\<close>

record flags =
  indexPage :: string

definition default_flags :: flags where
  "default_flags = \<lparr>indexPage = ''index.md''\<rparr>"

text \<open>\<^verbatim>\<open>Server\<close>: the handler reads \<^verbatim>\<open>RootString\<close> only.\<close>

record server =
  RootString :: string

record request =
  Method :: string
  Path :: string
  RawQuery :: string

definition version :: string where
  "version = ''0.0.6''"

definition serverheader :: string where
  "serverheader = ''markdownd/'' @ version"

datatype outcome = Returned "event list" | Panicked "event list"

subsection \<open>\<^verbatim>\<open>fileisgood\<close>\<close>

definition fileisgood :: "world \<Rightarrow> string \<Rightarrow> event list \<times> bool" where
  "fileisgood w absp =
     (if absp = [] then ([], False)
      else
        case (if \<not> IsAbs absp then Abs w absp else ([], Some absp)) of
          (e1, None) \<Rightarrow> (e1, False)
        | (e1, Some absp') \<Rightarrow>
            (case evalSymlinks w absp' of
               None \<Rightarrow> (e1 @ [EvalSymlinks absp'], False)
             | Some realpath \<Rightarrow> (e1 @ [EvalSymlinks absp'], realpath = absp')))"

subsection \<open>\<^verbatim>\<open>ServeHTTP\<close>\<close>

text \<open>Lines 166 to 179: the file name before it is made absolute.\<close>

definition target :: "flags \<Rightarrow> server \<Rightarrow> string \<Rightarrow> string" where
  "target fl s urlpath =
     (let absp = tl urlpath;
          absp = (if absp = [] then indexPage fl else absp);
          absp = (if HasSuffix absp ''/'' then absp @ ''index.md'' else absp)
      in RootString s @ absp)"

text \<open>Lines 195 to 203: a request for \<^verbatim>\<open>x.html\<close> is moved to \<^verbatim>\<open>x.md\<close> where that opens.\<close>

definition trymd :: "world \<Rightarrow> string \<Rightarrow> event list \<times> string" where
  "trymd w absp =
     (if HasSuffix absp ''.html'' then
        let t = TrimSuffix absp ''.html'' @ ''.md''
        in (case openErr w t of
              None \<Rightarrow> ([Open t], t)
            | Some err \<Rightarrow> ([Open t], absp))
      else ([], absp))"

text \<open>Lines 246 to 273: the bytes are classified and one of four branches answers.\<close>

definition render :: "world \<Rightarrow> request \<Rightarrow> string \<Rightarrow> bytes \<Rightarrow> event list" where
  "render w r absp b =
     (let ct = detectContentType w b in
      if HasSuffix absp ''.html'' \<or> HasPrefix ct ''text/html'' then
        [HeaderAdd ''Content-Type'' ''text/html'', Write b]
      else if HasSuffix absp ''.md'' \<and> HasPrefix ct ''text/plain'' then
        (if Contains (RawQuery r) ''raw'' then [Write b]
         else [Write (markdownCommon w b)])
      else [ServeFile absp])"

text \<open>Lines 207 to 244, then \<open>render\<close>: existence, symlink guard, root prefix, read.\<close>

definition serve :: "world \<Rightarrow> server \<Rightarrow> request \<Rightarrow> string \<Rightarrow> event list" where
  "serve w s r absp =
     (case openErr w absp of
        Some err \<Rightarrow>
          if Contains err ''no such file'' then [Open absp, NotFound]
          else [Open absp, NotFound]
      | None \<Rightarrow>
          (case fileisgood w absp of
             (e, False) \<Rightarrow> Open absp # e @ [NotFound]
           | (e, True) \<Rightarrow>
               if \<not> HasPrefix absp (RootString s) then Open absp # e @ [NotFound]
               else
                 (case readFile w absp of
                    None \<Rightarrow> Open absp # e @ [ReadFile absp, NotFound]
                  | Some b \<Rightarrow> Open absp # e @ ReadFile absp # render w r absp b)))"

definition headers0 :: "event list" where
  "headers0 = [HeaderAdd ''Server'' serverheader, HeaderAdd ''X-Frame-Options'' ''DENY'']"

text \<open>
  The handler. \<^verbatim>\<open>r.URL.Path[1:]\<close> panics on an empty path (slice bounds out of range),
  after the two headers were added.
\<close>

definition ServeHTTP :: "flags \<Rightarrow> world \<Rightarrow> server \<Rightarrow> request \<Rightarrow> outcome" where
  "ServeHTTP fl w s r =
     (if Method r \<noteq> ''GET'' then Returned [NotFound]
      else if Contains (Path r) ''../'' then Returned [NotFound]
      else if Path r = [] then Panicked headers0
      else
        case Abs w (target fl s (Path r)) of
          (e1, None) \<Rightarrow> Returned (headers0 @ e1 @ [NotFound])
        | (e1, Some absp) \<Rightarrow>
            (case trymd w absp of
               (e2, absp') \<Rightarrow> Returned (headers0 @ e1 @ e2 @ serve w s r absp')))"

subsection \<open>\<^verbatim>\<open>prepareDirectory\<close>\<close>

text \<open>Lines 301 to 320. \<open>None\<close>: the program exits with status 111.\<close>

definition prepareDirectory :: "world \<Rightarrow> string \<Rightarrow> string option" where
  "prepareDirectory w dir =
     (let dir = (if dir = ''.'' then dir @ ''/'' else dir)
      in case Abs w dir of
           (e, None) \<Rightarrow> None
         | (e, Some dir) \<Rightarrow> Some (if \<not> HasSuffix dir ''/'' then dir @ ''/'' else dir))"

text \<open>
  A name: an element that \<^verbatim>\<open>Clean\<close> keeps as it is. The roots that \<^verbatim>\<open>prepareDirectory\<close>
  returns are \<^verbatim>\<open>/\<close> and the paths \<^verbatim>\<open>/n1/.../nk/\<close> of names.
\<close>

definition name_elem :: "string \<Rightarrow> bool" where
  "name_elem c = (c \<noteq> [] \<and> c \<noteq> ''.'' \<and> c \<noteq> ''..'' \<and> CHR ''/'' \<notin> set c)"

subsection \<open>The resolved path\<close>

text \<open>
  The path the handler arrives with at the existence check of line 208: the absolute
  path, after the move from \<^verbatim>\<open>.html\<close> to \<^verbatim>\<open>.md\<close>. There is none where the handler has
  returned or panicked before.
\<close>

definition resolved :: "flags \<Rightarrow> world \<Rightarrow> server \<Rightarrow> request \<Rightarrow> string option" where
  "resolved fl w s r =
     (if Method r \<noteq> ''GET'' \<or> Contains (Path r) ''../'' \<or> Path r = [] then None
      else case Abs w (target fl s (Path r)) of
             (e1, None) \<Rightarrow> None
           | (e1, Some absp) \<Rightarrow> Some (snd (trymd w absp)))"

subsection \<open>Reading a trace\<close>

fun events :: "outcome \<Rightarrow> event list" where
  "events (Returned tr) = tr"
| "events (Panicked tr) = tr"

text \<open>
  The calls that touch the file system (\<^verbatim>\<open>http.ServeFile\<close> opens and reads the file it is
  given), the calls that read a file's contents, and the calls that answer the client.
\<close>

fun is_fs :: "event \<Rightarrow> bool" where
  "is_fs Getwd = True"
| "is_fs (Open p) = True"
| "is_fs (EvalSymlinks p) = True"
| "is_fs (ReadFile p) = True"
| "is_fs (ServeFile p) = True"
| "is_fs e = False"

fun is_read :: "event \<Rightarrow> bool" where
  "is_read (ReadFile p) = True"
| "is_read (ServeFile p) = True"
| "is_read e = False"

fun is_body :: "event \<Rightarrow> bool" where
  "is_body (Write b) = True"
| "is_body (ServeFile p) = True"
| "is_body e = False"

text \<open>The calls that only ask the system about a path.\<close>

fun probe :: "event \<Rightarrow> bool" where
  "probe Getwd = True"
| "probe (Open p) = True"
| "probe (EvalSymlinks p) = True"
| "probe e = False"

text \<open>The handler's own setting of the content type.\<close>

fun sets_content_type :: "event \<Rightarrow> bool" where
  "sets_content_type (HeaderAdd k v) = (k = ''Content-Type'')"
| "sets_content_type e = False"

text \<open>An event that neither reads a file's contents nor sends body bytes.\<close>

definition quiet :: "event \<Rightarrow> bool" where
  "quiet e = (\<not> is_read e \<and> \<not> is_body e)"

definition fs_calls :: "outcome \<Rightarrow> event list" where
  "fs_calls out = filter is_fs (events out)"

subsection \<open>The response a trace produces\<close>

text \<open>
  The \<^verbatim>\<open>http.ResponseWriter\<close> of \<^verbatim>\<open>net/http\<close>, after its documentation: the header map
  can be changed until the first write; the first write fixes the status (200 unless
  \<^verbatim>\<open>WriteHeader\<close> was called) and sends the header map as it is then.
  \<^verbatim>\<open>http.NotFound\<close> is \<^verbatim>\<open>http.Error\<close> with the text \<^verbatim>\<open>404 page not found\<close> and status 404.
  A file handed to \<^verbatim>\<open>http.ServeFile\<close> is answered by that function, with the header map
  as it stands; what it writes is not modelled.
\<close>

record writer =
  header :: "(string \<times> string) list"
  status :: "nat option"
  sent :: "(string \<times> string) list"
  body :: bytes
  handed :: "string option"

definition writer0 :: writer where
  "writer0 = \<lparr>header = [], status = None, sent = [], body = [], handed = None\<rparr>"

definition HeaderSet :: "string \<Rightarrow> string \<Rightarrow> writer \<Rightarrow> writer" where
  "HeaderSet k v x = x\<lparr>header := filter (\<lambda>kv. fst kv \<noteq> k) (header x) @ [(k, v)]\<rparr>"

definition WriteHeader :: "nat \<Rightarrow> writer \<Rightarrow> writer" where
  "WriteHeader code x =
     (if status x = None then x\<lparr>status := Some code, sent := header x\<rparr> else x)"

definition WriteBytes :: "bytes \<Rightarrow> writer \<Rightarrow> writer" where
  "WriteBytes b x = (let y = WriteHeader 200 x in y\<lparr>body := body y @ b\<rparr>)"

definition Error :: "string \<Rightarrow> nat \<Rightarrow> writer \<Rightarrow> writer" where
  "Error msg code x =
     WriteBytes (msg @ [CHR 0x0A])
       (WriteHeader code
         (HeaderSet ''X-Content-Type-Options'' ''nosniff''
           (HeaderSet ''Content-Type'' ''text/plain; charset=utf-8'' x)))"

fun apply_event :: "writer \<Rightarrow> event \<Rightarrow> writer" where
  "apply_event x (HeaderAdd k v) = x\<lparr>header := header x @ [(k, v)]\<rparr>"
| "apply_event x NotFound = Error ''404 page not found'' 404 x"
| "apply_event x (Write b) = WriteBytes b x"
| "apply_event x (ServeFile p) = x\<lparr>handed := Some p\<rparr>"
| "apply_event x e = x"

definition response :: "outcome \<Rightarrow> writer" where
  "response out = foldl apply_event writer0 (events out)"

text \<open>The writer once the handler has added its two headers.\<close>

definition writer1 :: writer where
  "writer1 = writer0\<lparr>header := [(''Server'', serverheader), (''X-Frame-Options'', ''DENY'')]\<rparr>"

text \<open>The headers that go out: those sent with the first write, or handed over.\<close>

definition carried :: "writer \<Rightarrow> (string \<times> string) list" where
  "carried x = (if status x = None then header x else sent x)"

subsection \<open>Example data\<close>

definition www :: server where
  "www = \<lparr>RootString = ''/srv/www/''\<rparr>"

definition get :: "string \<Rightarrow> string \<Rightarrow> request" where
  "get p q = \<lparr>Method = ''GET'', Path = p, RawQuery = q\<rparr>"

definition post :: "string \<Rightarrow> request" where
  "post p = \<lparr>Method = ''POST'', Path = p, RawQuery = []\<rparr>"

text \<open>
  A disk with the given directories, regular files and symbolic links (a link is listed
  with the real path it resolves to), and nothing else. The renderer of the example
  wraps its input in a paragraph.
\<close>

definition disk ::
  "string list \<Rightarrow> (string \<times> bytes) list \<Rightarrow> (string \<times> string) list \<Rightarrow> (bytes \<Rightarrow> string) \<Rightarrow> world" where
  "disk dirs files links sniff =
     \<lparr>getwd = Some ''/'',
      openErr = (\<lambda>p. if p \<in> set dirs \<or> map_of files p \<noteq> None then None
                     else Some (''open '' @ p @ '': no such file or directory'')),
      evalSymlinks = (\<lambda>p. case map_of links p of
                             Some real \<Rightarrow> Some real
                           | None \<Rightarrow> if p \<in> set dirs \<or> map_of files p \<noteq> None then Some p
                                     else None),
      readFile = map_of files,
      detectContentType = sniff,
      markdownCommon = (\<lambda>b. ''<p>'' @ b @ ''</p>'')\<rparr>"

definition demo_sniff :: "bytes \<Rightarrow> string" where
  "demo_sniff b =
     (if HasPrefix b ''<'' then ''text/html; charset=utf-8'' else ''text/plain; charset=utf-8'')"

definition home_flags :: flags where
  "home_flags = \<lparr>indexPage = ''home.md''\<rparr>"

definition site :: world where
  "site = disk [''/'', ''/srv'', ''/srv/www'', ''/srv/www/docs'']
     [(''/srv/www/index.md'', ''# Hi''),
      (''/srv/www/page.md'', ''<h1>T</h1>''),
      (''/srv/www/page.html'', ''old''),
      (''/srv/www/doc.md'', ''# Doc''),
      (''/srv/www/a'', ''<html>x</html>''),
      (''/srv/www/docs/home.md'', ''# Docs''),
      (''/srv/www/link.md'', ''root:x:0:0'')]
     [(''/srv/www/link.md'', ''/etc/passwd'')]
     demo_sniff"

section \<open>Properties\<close>

subsection \<open>Evaluating the string functions\<close>

lemma Contains_Nil: "Contains [] sub = (sub = [])"
  by (simp add: Contains_def)

lemma Contains_Cons: "Contains (c # cs) sub = (prefix sub (c # cs) \<or> Contains cs sub)"
  by (cases sub) (simp_all add: Contains_def sublist_code(3))

lemmas Contains_eval = Contains_Nil Contains_Cons

subsection \<open>Where the trace reads and writes\<close>

lemma quiet_simps [simp]:
  "quiet Getwd" "quiet (Open p)" "quiet (EvalSymlinks p)" "quiet (HeaderAdd k v)" "quiet NotFound"
  "\<not> quiet (ReadFile p)" "\<not> quiet (Write b)" "\<not> quiet (ServeFile p)"
  by (simp_all add: quiet_def)

lemma Abs_quiet: "Abs w p = (e, x) \<Longrightarrow> \<forall>a \<in> set e. quiet a"
  by (auto simp: Abs_def split: if_splits option.splits)

lemma trymd_quiet: "trymd w p = (e, x) \<Longrightarrow> \<forall>a \<in> set e. quiet a"
  by (auto simp: trymd_def Let_def split: if_splits option.splits)

lemma fileisgood_quiet: "fileisgood w p = (e, x) \<Longrightarrow> \<forall>a \<in> set e. quiet a"
  by (auto simp: fileisgood_def Abs_def split: if_splits option.splits prod.splits)

lemma fileisgood_events: "fileisgood w p = (e, True) \<Longrightarrow> e \<noteq> []"
  by (auto simp: fileisgood_def split: if_splits option.splits prod.splits)

lemma headers0_quiet: "\<forall>a \<in> set headers0. quiet a"
  by (simp add: headers0_def)

lemma ServeHTTP_resolved:
  assumes "resolved fl w s r = Some p"
  shows "\<exists>pre. ServeHTTP fl w s r = Returned (pre @ serve w s r p) \<and> (\<forall>a \<in> set pre. quiet a)"
proof -
  from assms obtain e1 a where A: "Abs w (target fl s (Path r)) = (e1, Some a)"
    and g: "Method r = ''GET''" "\<not> Contains (Path r) ''../''" "Path r \<noteq> []"
    and p: "p = snd (trymd w a)"
    by (auto simp: resolved_def split: if_splits prod.splits option.splits)
  obtain e2 where T: "trymd w a = (e2, p)" using p by (cases "trymd w a") simp
  have "ServeHTTP fl w s r = Returned ((headers0 @ e1 @ e2) @ serve w s r p)"
    using A g T by (simp add: ServeHTTP_def)
  moreover have "\<forall>a \<in> set (headers0 @ e1 @ e2). quiet a"
    using Abs_quiet [OF A] trymd_quiet [OF T] headers0_quiet by auto
  ultimately show ?thesis by blast
qed

lemma ServeHTTP_unresolved:
  assumes "resolved fl w s r = None"
  shows "\<forall>a \<in> set (events (ServeHTTP fl w s r)). quiet a"
  using assms headers0_quiet
  by (auto simp: resolved_def ServeHTTP_def dest: Abs_quiet split: if_splits prod.splits option.splits)

lemma render_shape:
  "render w r p b = [HeaderAdd ''Content-Type'' ''text/html'', Write b] \<or>
   render w r p b = [Write b] \<or> render w r p b = [Write (markdownCommon w b)] \<or>
   render w r p b = [ServeFile p]"
  by (simp add: render_def Let_def)

lemma serve_guard_fails:
  assumes "\<not> (snd (fileisgood w p) \<and> HasPrefix p (RootString s))"
  shows "\<exists>tr. serve w s r p = tr @ [NotFound] \<and> (\<forall>a \<in> set tr. quiet a)"
proof (cases "fileisgood w p")
  case (Pair e good)
  then show ?thesis
    using assms fileisgood_quiet [OF Pair]
    by (cases good) (auto simp: serve_def split: option.splits)
qed

lemma serve_passes:
  assumes "e \<in> set (serve w s r p)" "\<not> quiet e"
  shows "snd (fileisgood w p) \<and> HasPrefix p (RootString s) \<and>
         (\<exists>post. serve w s r p = Open p # fst (fileisgood w p) @ ReadFile p # post \<and>
            (case readFile w p of None \<Rightarrow> post = [NotFound] | Some b \<Rightarrow> post = render w r p b))"
proof (cases "fileisgood w p")
  case (Pair ev good)
  then show ?thesis
    using assms fileisgood_quiet [OF Pair]
    by (cases good) (auto simp: serve_def split: option.splits if_splits)
qed

lemma reads_guarded:
  assumes e: "e \<in> set (events (ServeHTTP fl w s r))" and nq: "is_read e \<or> is_body e"
  shows "\<exists>p. resolved fl w s r = Some p \<and>
           snd (fileisgood w p) \<and> HasPrefix p (RootString s) \<and>
           fst (fileisgood w p) \<noteq> [] \<and>
           set (fst (fileisgood w p))
             \<subseteq> set (takeWhile (\<lambda>a. \<not> is_read a \<and> \<not> is_body a) (events (ServeHTTP fl w s r))) \<and>
           (e = ReadFile p \<or> e = ServeFile p \<or>
            (\<exists>b. readFile w p = Some b \<and> (e = Write b \<or> e = Write (markdownCommon w b))))"
proof (cases "resolved fl w s r")
  case None
  have "\<not> quiet e" using nq by (simp add: quiet_def)
  then show ?thesis using ServeHTTP_unresolved [OF None] e by blast
next
  case (Some p)
  have nq': "\<not> quiet e" using nq by (simp add: quiet_def)
  from ServeHTTP_resolved [OF Some] obtain pre where
    S: "ServeHTTP fl w s r = Returned (pre @ serve w s r p)" and pre: "\<forall>a \<in> set pre. quiet a"
    by blast
  from e S pre nq' have es: "e \<in> set (serve w s r p)" by auto
  from serve_passes [OF es nq'] obtain post where
    ok: "snd (fileisgood w p)" "HasPrefix p (RootString s)"
    and sv: "serve w s r p = Open p # fst (fileisgood w p) @ ReadFile p # post"
    and post: "case readFile w p of None \<Rightarrow> post = [NotFound] | Some b \<Rightarrow> post = render w r p b"
    by blast
  have q: "\<forall>a \<in> set (fst (fileisgood w p)). quiet a"
    using fileisgood_quiet [of w p] by (cases "fileisgood w p") auto
  have ne: "fst (fileisgood w p) \<noteq> []"
    using fileisgood_events [of w p] ok by (cases "fileisgood w p") auto
  have tw: "takeWhile quiet (pre @ (Open p # fst (fileisgood w p)) @ ReadFile p # post)
            = pre @ Open p # fst (fileisgood w p)"
    using pre q by (simp add: takeWhile_tail)
  have tw': "takeWhile (\<lambda>a. \<not> is_read a \<and> \<not> is_body a) (events (ServeHTTP fl w s r))
            = pre @ Open p # fst (fileisgood w p)"
    using tw S sv by (simp add: quiet_def [abs_def])
  have mem: "e = ReadFile p \<or> e \<in> set post"
    using es sv q nq' by auto
  have shape: "e = ReadFile p \<or> e = ServeFile p \<or>
          (\<exists>b. readFile w p = Some b \<and> (e = Write b \<or> e = Write (markdownCommon w b)))"
  proof (cases "readFile w p")
    case None
    then show ?thesis using mem post nq' by auto
  next
    case (Some b)
    then have "post = render w r p b" using post by simp
    then show ?thesis using mem render_shape [of w r p b] nq' Some by auto
  qed
  show ?thesis using Some ok ne tw' shape by auto
qed

lemma guard_failure_not_found:
  assumes R: "resolved fl w s r = Some p"
    and bad: "\<not> (snd (fileisgood w p) \<and> HasPrefix p (RootString s))"
  shows "filter (\<lambda>a. is_read a \<or> is_body a) (events (ServeHTTP fl w s r)) = [] \<and>
      (\<exists>tr. ServeHTTP fl w s r = Returned (tr @ [NotFound]))"
proof -
  from ServeHTTP_resolved [OF R] obtain pre where
    S: "ServeHTTP fl w s r = Returned (pre @ serve w s r p)" and pre: "\<forall>a \<in> set pre. quiet a"
    by blast
  from serve_guard_fails [OF bad] obtain tr where
    sv: "serve w s r p = tr @ [NotFound]" and tr: "\<forall>a \<in> set tr. quiet a" by blast
  have "filter (\<lambda>a. is_read a \<or> is_body a) (events (ServeHTTP fl w s r)) = []"
    using S sv pre tr by (auto simp: quiet_def filter_empty_conv)
  moreover have "ServeHTTP fl w s r = Returned ((pre @ tr) @ [NotFound])"
    using S sv by simp
  ultimately show ?thesis by blast
qed

subsection \<open>The shape of a trace\<close>

lemma probe_quiet: "probe a \<Longrightarrow> quiet a"
  by (cases a) simp_all

lemma Abs_probe: "Abs w p = (e, x) \<Longrightarrow> \<forall>a \<in> set e. probe a"
  by (auto simp: Abs_def split: if_splits option.splits)

lemma trymd_probe: "trymd w p = (e, x) \<Longrightarrow> \<forall>a \<in> set e. probe a"
  by (auto simp: trymd_def Let_def split: if_splits option.splits)

lemma fileisgood_probe: "\<forall>a \<in> set (fst (fileisgood w p)). probe a"
  by (auto simp: fileisgood_def Abs_def split: if_splits option.splits prod.splits)

lemma ServeHTTP_resolved_probe:
  assumes "resolved fl w s r = Some p"
  shows "\<exists>pre. ServeHTTP fl w s r = Returned (headers0 @ pre @ serve w s r p) \<and>
               (\<forall>a \<in> set pre. probe a)"
proof -
  from assms obtain e1 a where A: "Abs w (target fl s (Path r)) = (e1, Some a)"
    and g: "Method r = ''GET''" "\<not> Contains (Path r) ''../''" "Path r \<noteq> []"
    and p: "p = snd (trymd w a)"
    by (auto simp: resolved_def split: if_splits prod.splits option.splits)
  obtain e2 where T: "trymd w a = (e2, p)" using p by (cases "trymd w a") simp
  have "ServeHTTP fl w s r = Returned (headers0 @ (e1 @ e2) @ serve w s r p)"
    using A g T by (simp add: ServeHTTP_def)
  moreover have "\<forall>a \<in> set (e1 @ e2). probe a"
    using Abs_probe [OF A] trymd_probe [OF T] by auto
  ultimately show ?thesis by blast
qed

lemma ServeHTTP_unresolved_shape:
  assumes "resolved fl w s r = None"
  shows "ServeHTTP fl w s r = Returned [NotFound] \<or> ServeHTTP fl w s r = Panicked headers0 \<or>
         (\<exists>pre. ServeHTTP fl w s r = Returned (headers0 @ pre @ [NotFound]) \<and> (\<forall>a \<in> set pre. probe a))"
  using assms
  by (auto simp: resolved_def ServeHTTP_def dest: Abs_probe split: if_splits prod.splits option.splits)

text \<open>The four ways \<open>serve\<close> can go.\<close>

lemma serve_shape:
  "(\<exists>pre. serve w s r p = pre @ [NotFound] \<and> (\<forall>a \<in> set pre. probe a) \<and>
       (openErr w p \<noteq> None \<or> \<not> snd (fileisgood w p) \<or> \<not> HasPrefix p (RootString s))) \<or>
   (\<exists>pre. serve w s r p = pre @ [ReadFile p, NotFound] \<and> (\<forall>a \<in> set pre. probe a) \<and>
       openErr w p = None \<and> snd (fileisgood w p) \<and> HasPrefix p (RootString s) \<and> readFile w p = None) \<or>
   (\<exists>pre b. serve w s r p = pre @ ReadFile p # render w r p b \<and> (\<forall>a \<in> set pre. probe a) \<and>
       openErr w p = None \<and> snd (fileisgood w p) \<and> HasPrefix p (RootString s) \<and> readFile w p = Some b)"
proof (cases "fileisgood w p")
  case (Pair e good)
  have pe: "\<forall>a \<in> set e. probe a" using fileisgood_probe [of w p] Pair by simp
  have A: "\<And>x. (Open p # e) @ x = Open p # e @ x" by simp
  have B: "\<forall>a \<in> set (Open p # e). probe a" using pe by simp
  show ?thesis
  proof (cases "openErr w p")
    case (Some err)
    then have "serve w s r p = [Open p] @ [NotFound]" by (simp add: serve_def)
    then show ?thesis using Some by (intro disjI1 exI [of _ "[Open p]"]) simp
  next
    case None
    show ?thesis
    proof (cases "good \<and> HasPrefix p (RootString s)")
      case False
      then have "serve w s r p = (Open p # e) @ [NotFound]"
        using None Pair by (cases good) (auto simp: serve_def)
      then show ?thesis using False Pair B by (intro disjI1 exI [of _ "Open p # e"]) auto
    next
      case True
      show ?thesis
      proof (cases "readFile w p")
        case None': None
        have "serve w s r p = (Open p # e) @ [ReadFile p, NotFound]"
          using None None' Pair True by (auto simp: serve_def)
        then show ?thesis using True Pair B None None'
          by (intro disjI2 disjI1 exI [of _ "Open p # e"]) auto
      next
        case (Some b)
        have "serve w s r p = (Open p # e) @ ReadFile p # render w r p b"
          using None Some Pair True by (auto simp: serve_def)
        then show ?thesis using True Pair B None Some
          by (intro disjI2 exI [of _ "Open p # e"] exI [of _ b]) auto
      qed
    qed
  qed
qed


lemma serve_cases:
  obtains
    (rejected) pre where "serve w s r p = pre @ [NotFound]" "\<forall>a \<in> set pre. probe a"
      "openErr w p \<noteq> None \<or> \<not> snd (fileisgood w p) \<or> \<not> HasPrefix p (RootString s)"
  | (unreadable) pre where "serve w s r p = pre @ [ReadFile p, NotFound]" "\<forall>a \<in> set pre. probe a"
      "openErr w p = None" "snd (fileisgood w p)" "HasPrefix p (RootString s)" "readFile w p = None"
  | (rendered) pre b where "serve w s r p = pre @ ReadFile p # render w r p b"
      "\<forall>a \<in> set pre. probe a"
      "openErr w p = None" "snd (fileisgood w p)" "HasPrefix p (RootString s)" "readFile w p = Some b"
  using serve_shape [of w s r p] by blast

subsection \<open>What a trace does to the response\<close>

lemma apply_probe: "probe a \<Longrightarrow> apply_event x a = x"
  by (cases a) simp_all

lemma foldl_probes: "\<forall>a \<in> set pre. probe a \<Longrightarrow> foldl apply_event x pre = x"
  by (induction pre arbitrary: x) (simp_all add: apply_probe)

lemma foldl_headers0: "foldl apply_event writer0 headers0 = writer1"
  by (simp add: headers0_def writer0_def writer1_def)

lemma response_after_probes:
  "\<forall>a \<in> set pre. probe a \<Longrightarrow>
     response (Returned (headers0 @ pre @ rest)) = foldl apply_event writer1 rest"
  by (simp add: response_def foldl_headers0 foldl_probes)

lemma NotFound_first:
  "status x = None \<Longrightarrow> body x = [] \<Longrightarrow>
     status (apply_event x NotFound) = Some 404 \<and>
     body (apply_event x NotFound) = ''404 page not found'' @ [CHR 0x0A]"
  by (simp add: Error_def WriteBytes_def WriteHeader_def HeaderSet_def Let_def)

lemma header_kept_step:
  assumes "k \<noteq> ''Content-Type''" "k \<noteq> ''X-Content-Type-Options''"
    and "(k, v) \<in> set (header x)" "status x \<noteq> None \<longrightarrow> (k, v) \<in> set (sent x)"
  shows "(k, v) \<in> set (header (apply_event x e)) \<and>
         (status (apply_event x e) \<noteq> None \<longrightarrow> (k, v) \<in> set (sent (apply_event x e)))"
  using assms
  by (cases e) (auto simp: Error_def WriteBytes_def WriteHeader_def HeaderSet_def Let_def)

lemma header_kept:
  assumes "k \<noteq> ''Content-Type''" "k \<noteq> ''X-Content-Type-Options''"
  shows "(k, v) \<in> set (header x) \<Longrightarrow> (status x \<noteq> None \<longrightarrow> (k, v) \<in> set (sent x)) \<Longrightarrow>
         (k, v) \<in> set (carried (foldl apply_event x tr))"
proof (induction tr arbitrary: x)
  case Nil
  then show ?case by (simp add: carried_def)
next
  case (Cons e tr)
  from header_kept_step [OF assms Cons.prems, of e] show ?case
    using Cons.IH [of "apply_event x e"] by simp
qed

lemma render_content_type:
  "HeaderAdd ''Content-Type'' v \<in> set (render w r p b) \<longleftrightarrow>
     v = ''text/html'' \<and> (HasSuffix p ''.html'' \<or> HasPrefix (detectContentType w b) ''text/html'')"
  by (auto simp: render_def Let_def)

lemma probe_not_header: "HeaderAdd k v \<in> set pre \<Longrightarrow> \<forall>a \<in> set pre. probe a \<Longrightarrow> False"
  by auto

subsection \<open>Elements of a path\<close>

lemma elems_nonempty [simp]: "elems p \<noteq> []"
  by (induction p) auto

lemma elems_noslash: "CHR ''/'' \<notin> set s \<Longrightarrow> elems s = [s]"
  by (induction s) auto

lemma elems_slash: "elems (a @ CHR ''/'' # b) = elems a @ elems b"
  by (induction a) (auto simp: hd_append)

lemma elems_append_noslash:
  "CHR ''/'' \<notin> set s \<Longrightarrow> elems (q @ s) = butlast (elems q) @ [last (elems q) @ s]"
proof (induction q)
  case Nil
  then show ?case by (simp add: elems_noslash)
next
  case (Cons c q)
  show ?case
  proof (cases "butlast (elems q)")
    case Nil
    then have "elems q = [last (elems q)]"
      by (metis append_butlast_last_id append_Nil elems_nonempty)
    then obtain l where E: "elems q = [l]" ..
    show ?thesis using Cons.prems Cons.IH E by auto
  next
    case (Cons x xs)
    then have "elems q = (x # xs) @ [last (elems q)]"
      by (metis append_butlast_last_id elems_nonempty)
    then obtain l where E: "elems q = x # xs @ [l]" by simp
    show ?thesis using Cons.prems Cons.IH E by auto
  qed
qed

lemma joinSlash_snoc:
  "joinSlash (xs @ [e]) = (if xs = [] then e else joinSlash xs @ ''/'' @ e)"
  by (induction xs rule: joinSlash.induct) auto

lemma suffix_joinSlash_snoc: "suffix e (joinSlash (xs @ [e]))"
  by (auto simp: joinSlash_snoc suffix_def)

lemma foldl_snoc_real:
  assumes "e \<noteq> []" "e \<noteq> ''.''" "e \<noteq> ''..''"
  shows "rev (foldl (cleanStep rt) [] (xs @ [e])) = rev (foldl (cleanStep rt) [] xs) @ [e]"
  using assms by simp

lemma Clean_keeps_last:
  assumes "last (elems p) = e" "e \<noteq> []" "e \<noteq> ''.''" "e \<noteq> ''..''"
  shows "suffix e (Clean p)"
proof -
  have p: "p \<noteq> []" using assms by auto
  have E: "elems p = butlast (elems p) @ [e]"
    using assms(1) by (metis append_butlast_last_id elems_nonempty)
  have R: "rev (foldl (cleanStep rt) [] (elems p))
           = rev (foldl (cleanStep rt) [] (butlast (elems p))) @ [e]" for rt
    using foldl_snoc_real [OF assms(2-4), of rt "butlast (elems p)"] E by simp
  show ?thesis
    using p suffix_joinSlash_snoc [of e]
    by (simp add: Clean_def Let_def R suffix_ConsI del: cleanStep.simps)
qed

lemma Clean_suffix:
  assumes "suffix s p" "CHR ''/'' \<notin> set s" "3 \<le> length s"
  shows "suffix s (Clean p)"
proof -
  from assms(1) obtain q where p: "p = q @ s" by (auto simp: suffix_def)
  have l: "last (elems p) = last (elems q) @ s"
    using elems_append_noslash [OF assms(2), of q] p by simp
  define x where "x = last (elems q) @ s"
  have len: "3 \<le> length x" using assms(3) by (simp add: x_def)
  have x: "x \<noteq> []" "x \<noteq> ''.''" "x \<noteq> ''..''" using len by auto
  have "suffix x (Clean p)"
    using l x unfolding x_def [symmetric] by (rule Clean_keeps_last)
  then show ?thesis by (auto simp: suffix_def x_def)
qed

lemma Abs_suffix:
  assumes "Abs w p = (e, Some a)" "suffix s p" "CHR ''/'' \<notin> set s" "3 \<le> length s"
  shows "suffix s a"
proof -
  have 1: "suffix s (Clean p)" by (rule Clean_suffix [OF assms(2-4)])
  have "suffix s (wd @ ''/'' @ p)" for wd using assms(2) by (auto simp: suffix_def)
  then have 2: "suffix s (Clean (wd @ ''/'' @ p))" for wd
    using Clean_suffix assms(3,4) by blast
  have "p \<noteq> []" using assms(2,4) by auto
  then show ?thesis
    using assms(1) 1 2 by (auto simp: Abs_def Join_def split: if_splits option.splits)
qed

lemma target_suffix:
  assumes "HasPrefix u ''/''" "HasSuffix u sfx" "CHR ''/'' \<notin> set sfx" "3 \<le> length sfx"
  shows "suffix sfx (target fl s u)"
proof -
  from assms(1) obtain rest where u: "u = CHR ''/'' # rest"
    by (auto simp: HasPrefix_def prefix_def)
  from assms(2) u obtain z where z: "CHR ''/'' # rest = z @ sfx"
    by (auto simp: HasSuffix_def suffix_def)
  have "sfx \<noteq> []" using assms(4) by auto
  have "z \<noteq> []" using z assms(3) by (cases z) auto
  then obtain z' where "z = CHR ''/'' # z'" using z by (cases z) auto
  then have rest: "rest = z' @ sfx" using z by simp
  have ne: "rest \<noteq> []" using rest \<open>sfx \<noteq> []\<close> by simp
  have "last rest = last sfx" using rest \<open>sfx \<noteq> []\<close> by simp
  moreover have "last sfx \<in> set sfx" using \<open>sfx \<noteq> []\<close> by simp
  ultimately have "last rest \<noteq> CHR ''/''" using assms(3) by metis
  then have ns: "\<not> HasSuffix rest ''/''"
    using ne by (auto simp: HasSuffix_def suffix_def)
  show ?thesis using u ne ns rest by (simp add: target_def Let_def suffix_def)
qed

lemma md_not_html: "suffix ''.md'' p \<Longrightarrow> \<not> suffix ''.html'' p"
  by (auto simp: suffix_def append_eq_append_conv2 append_eq_Cons_conv Cons_eq_append_conv)


subsection \<open>Markdown and the move from html to md\<close>

lemma list_ex_content_type:
  "list_ex sets_content_type evs \<longleftrightarrow> (\<exists>v. HeaderAdd ''Content-Type'' v \<in> set evs)"
proof (induction evs)
  case Nil
  then show ?case by simp
next
  case (Cons e evs)
  then show ?case by (cases e) auto
qed

lemma plain_not_html: "prefix ''text/plain'' ct \<Longrightarrow> \<not> prefix ''text/html'' ct"
  by (auto simp: prefix_def)

lemma render_markdown:
  assumes "HasSuffix p ''.md''" "HasPrefix (detectContentType w b) ''text/plain''"
  shows "render w r p b =
           (if Contains (RawQuery r) ''raw'' then [Write b] else [Write (markdownCommon w b)])"
  using assms md_not_html [of p] plain_not_html [of "detectContentType w b"]
  by (simp add: render_def Let_def HasSuffix_def HasPrefix_def)

lemma response_served:
  assumes R: "resolved fl w s r = Some p" and o: "openErr w p = None"
    and g: "snd (fileisgood w p)" "HasPrefix p (RootString s)" and b: "readFile w p = Some b"
  shows "response (ServeHTTP fl w s r) = foldl apply_event writer1 (render w r p b) \<and>
         (\<exists>pre. ServeHTTP fl w s r = Returned (headers0 @ pre @ ReadFile p # render w r p b) \<and>
                (\<forall>a \<in> set pre. probe a))"
proof -
  from ServeHTTP_resolved_probe [OF R] obtain pre where
    S: "ServeHTTP fl w s r = Returned (headers0 @ pre @ serve w s r p)"
    and pre: "\<forall>a \<in> set pre. probe a" by blast
  show ?thesis
  proof (cases rule: serve_cases [of w s r p])
    case (rejected q)
    then show ?thesis using o g by simp
  next
    case (unreadable q)
    then show ?thesis using b by simp
  next
    case (rendered q b')
    then have sv: "serve w s r p = q @ ReadFile p # render w r p b" using b by simp
    have pq: "\<forall>a \<in> set (pre @ q). probe a" using pre rendered(2) by auto
    have S': "ServeHTTP fl w s r = Returned (headers0 @ (pre @ q) @ ReadFile p # render w r p b)"
      using S sv by simp
    have "response (ServeHTTP fl w s r) = foldl apply_event writer1 (ReadFile p # render w r p b)"
      unfolding S' by (rule response_after_probes [OF pq])
    then show ?thesis using S' pq by auto
  qed
qed

lemma html_to_md_differs: "suffix ''.html'' a \<Longrightarrow> TrimSuffix a ''.html'' @ ''.md'' \<noteq> a"
  by (auto simp: TrimSuffix_def HasSuffix_def suffix_def)

lemma content_type_header_iff:
  "(\<exists>v. HeaderAdd ''Content-Type'' v \<in> set (events (ServeHTTP fl w s r))) \<longleftrightarrow>
   (\<exists>p b. resolved fl w s r = Some p \<and> openErr w p = None \<and> snd (fileisgood w p) \<and>
          HasPrefix p (RootString s) \<and> readFile w p = Some b \<and>
          (HasSuffix p ''.html'' \<or> HasPrefix (detectContentType w b) ''text/html''))"
proof (cases "resolved fl w s r")
  case None
  have "HeaderAdd ''Content-Type'' v \<notin> set (events (ServeHTTP fl w s r))" for v
    using ServeHTTP_unresolved_shape [OF None] by (auto simp: headers0_def dest: probe_not_header)
  then show ?thesis using None by simp
next
  case (Some p)
  from ServeHTTP_resolved_probe [OF Some] obtain pre where
    S: "ServeHTTP fl w s r = Returned (headers0 @ pre @ serve w s r p)"
    and pre: "\<forall>a \<in> set pre. probe a" by blast
  have ev: "HeaderAdd ''Content-Type'' v \<in> set (events (ServeHTTP fl w s r)) \<longleftrightarrow>
            HeaderAdd ''Content-Type'' v \<in> set (serve w s r p)" for v
    using S pre by (auto simp: headers0_def dest: probe_not_header)
  show ?thesis
  proof (cases rule: serve_cases [of w s r p])
    case (rejected q)
    then show ?thesis using Some ev by (auto dest: probe_not_header)
  next
    case (unreadable q)
    then show ?thesis using Some ev by (auto dest: probe_not_header)
  next
    case (rendered q b)
    then show ?thesis using Some ev render_content_type [of _ w r p b]
      by (auto dest: probe_not_header)
  qed
qed


subsection \<open>The answer to a failed guard\<close>

lemma guard_failure_uniform:
  assumes R: "resolved fl w s r = Some p"
    and bad: "\<not> (snd (fileisgood w p) \<and> HasPrefix p (RootString s))"
  shows "(\<exists>pre. ServeHTTP fl w s r = Returned (headers0 @ pre @ [NotFound]) \<and>
               (\<forall>a \<in> set pre. probe a)) \<and>
         response (ServeHTTP fl w s r) = apply_event writer1 NotFound"
proof -
  from ServeHTTP_resolved_probe [OF R] obtain pre where
    S: "ServeHTTP fl w s r = Returned (headers0 @ pre @ serve w s r p)"
    and pre: "\<forall>a \<in> set pre. probe a" by blast
  show ?thesis
  proof (cases rule: serve_cases [of w s r p])
    case (rejected q)
    have pq: "\<forall>a \<in> set (pre @ q). probe a" using pre rejected(2) by auto
    have S': "ServeHTTP fl w s r = Returned (headers0 @ (pre @ q) @ [NotFound])"
      using S rejected(1) by simp
    have "response (ServeHTTP fl w s r) = foldl apply_event writer1 [NotFound]"
      unfolding S' by (rule response_after_probes [OF pq])
    then show ?thesis using S' pq by auto
  next
    case (unreadable q)
    then show ?thesis using bad by simp
  next
    case (rendered q b)
    then show ?thesis using bad by simp
  qed
qed

lemma NotFound_after_headers:
  "status (apply_event writer1 NotFound) = Some 404 \<and>
   body (apply_event writer1 NotFound) = ''404 page not found'' @ [CHR 0x0A] \<and>
   sent (apply_event writer1 NotFound) =
     [(''Server'', serverheader), (''X-Frame-Options'', ''DENY''),
      (''Content-Type'', ''text/plain; charset=utf-8''), (''X-Content-Type-Options'', ''nosniff'')]"
  by (simp add: writer1_def writer0_def Error_def WriteBytes_def WriteHeader_def HeaderSet_def
      Let_def)

subsection \<open>Climbing out of the root\<close>

lemma elems_joinSlash:
  "cs \<noteq> [] \<Longrightarrow> \<forall>c \<in> set cs. CHR ''/'' \<notin> set c \<Longrightarrow> elems (joinSlash cs) = cs"
proof (induction cs rule: joinSlash.induct)
  case 1
  then show ?case by simp
next
  case (2 e)
  then show ?case by (simp add: elems_noslash)
next
  case (3 e e' es)
  then show ?case by (simp add: elems_slash elems_noslash)
qed

lemma foldl_names:
  "\<forall>c \<in> set cs. name_elem c \<Longrightarrow> foldl (cleanStep rt) st cs = rev cs @ st"
  by (induction cs arbitrary: st) (auto simp: name_elem_def)

lemma foldl_skipped:
  "\<forall>e \<in> set es. e = [] \<or> e = ''.'' \<Longrightarrow> foldl (cleanStep rt) st es = st"
  by (induction es arbitrary: st) auto

lemma length_joinSlash_butlast:
  assumes "cs \<noteq> []" "last cs \<noteq> []"
  shows "length (joinSlash (butlast cs)) < length (joinSlash cs)"
proof -
  have "cs = butlast cs @ [last cs]" using assms(1) by simp
  then have "joinSlash cs = joinSlash (butlast cs @ [last cs])" by simp
  also have "\<dots> = (if butlast cs = [] then last cs else joinSlash (butlast cs) @ ''/'' @ last cs)"
    by (rule joinSlash_snoc)
  finally show ?thesis using assms(2) by (auto split: if_splits)
qed

lemma Clean_rooted:
  "IsAbs p \<Longrightarrow> Clean p = ''/'' @ joinSlash (rev (foldl (cleanStep True) [] (elems p)))"
  by (auto simp: Clean_def Let_def IsAbs_def HasPrefix_def)

lemma elems_last_slash: "last (elems (y @ ''/'')) = []"
  using elems_slash [of y "[]"] by simp

lemma dotdot_target:
  assumes "RootString s = ''/'' @ joinSlash cs @ ''/''" "elems x = es @ [''..'']"
  shows "target fl s (CHR ''/'' # x) = ''/'' @ joinSlash cs @ ''/'' @ x"
proof -
  have ne: "x \<noteq> []" using assms(2) by (cases x) (auto simp: append_eq_Cons_conv)
  have "\<not> suffix ''/'' x"
  proof
    assume "suffix ''/'' x"
    then obtain y where "x = y @ ''/''" by (auto simp: suffix_def)
    then have "last (elems x) = []" using elems_last_slash by simp
    then show False using assms(2) by simp
  qed
  then show ?thesis using ne assms(1) by (simp add: target_def Let_def HasSuffix_def)
qed

text \<open>The guard fires only where an element before the last ends in two dots.\<close>

lemma Contains_dotdot_slash:
  assumes "Contains u ''../''"
  shows "\<exists>e \<in> set (butlast (elems u)). suffix ''..'' e"
proof -
  from assms obtain ps ss where u: "u = ps @ ''../'' @ ss"
    by (auto simp: Contains_def sublist_def)
  then have "u = (ps @ ''..'') @ CHR ''/'' # ss" by simp
  then have "elems u = elems (ps @ ''..'') @ elems ss" using elems_slash by metis
  moreover have "elems (ps @ ''..'') = butlast (elems ps) @ [last (elems ps) @ ''..'']"
    by (rule elems_append_noslash) simp
  ultimately have "butlast (elems u)
      = butlast (elems ps) @ [last (elems ps) @ ''..''] @ butlast (elems ss)"
    by (simp add: butlast_append)
  then have "last (elems ps) @ ''..'' \<in> set (butlast (elems u))" by simp
  moreover have "suffix ''..'' (last (elems ps) @ ''..'')" by (simp add: suffix_def)
  ultimately show ?thesis by blast
qed

lemma trymd_length: "length (snd (trymd w a)) \<le> length a"
  by (auto simp: trymd_def TrimSuffix_def HasSuffix_def suffix_def Let_def split: option.splits)

subsection \<open>What \<^verbatim>\<open>Clean\<close> returns\<close>

lemma elems_no_slash: "e \<in> set (elems p) \<Longrightarrow> CHR ''/'' \<notin> set e"
proof (induction p arbitrary: e)
  case Nil
  then show ?case by simp
next
  case (Cons c p)
  have "hd (elems p) \<in> set (elems p)" by simp
  moreover have "set (tl (elems p)) \<subseteq> set (elems p)" by (simp add: list.set_sel(2) subsetI)
  ultimately show ?case using Cons by (auto split: if_splits)
qed

lemma cleanStep_cases:
  "cleanStep rt st e =
     (if e = [] \<or> e = ''.'' then st
      else if e = ''..'' then
        (case st of [] \<Rightarrow> if rt then [] else [''..'']
         | t # ts \<Rightarrow> if t = ''..'' then (if rt then st else ''..'' # st) else ts)
      else e # st)"
  by simp

lemma cleanStep_rooted_names:
  assumes "CHR ''/'' \<notin> set e" "\<forall>c \<in> set st. name_elem c"
  shows "\<forall>c \<in> set (cleanStep True st e). name_elem c"
proof (cases "e = [] \<or> e = ''.''")
  case True
  then show ?thesis using assms(2) by (simp only: cleanStep_cases if_True)
next
  case False
  show ?thesis
  proof (cases "e = ''..''")
    case True
    show ?thesis
    proof (cases st)
      case Nil
      then show ?thesis using True by simp
    next
      case (Cons t ts)
      then have "t \<noteq> ''..''" using assms(2) by (simp add: name_elem_def)
      then have "cleanStep True st e = ts" using True Cons by simp
      then show ?thesis using assms(2) Cons by simp
    qed
  next
    case ne: False
    then have "cleanStep True st e = e # st" using False by (simp only: cleanStep_cases if_False)
    moreover have "name_elem e" using False ne assms(1) by (simp add: name_elem_def)
    ultimately show ?thesis using assms(2) by simp
  qed
qed

lemma foldl_rooted_names:
  "\<forall>e \<in> set es. CHR ''/'' \<notin> set e \<Longrightarrow> \<forall>c \<in> set st. name_elem c \<Longrightarrow>
     \<forall>c \<in> set (foldl (cleanStep True) st es). name_elem c"
proof (induction es arbitrary: st)
  case Nil
  then show ?case by simp
next
  case (Cons e es)
  have e: "CHR ''/'' \<notin> set e" and es: "\<forall>e \<in> set es. CHR ''/'' \<notin> set e"
    using Cons.prems(1) by simp_all
  have step: "\<forall>c \<in> set (cleanStep True st e). name_elem c"
    using e Cons.prems(2) by (rule cleanStep_rooted_names)
  have "foldl (cleanStep True) st (e # es) = foldl (cleanStep True) (cleanStep True st e) es"
    by (simp only: foldl_Cons)
  then show ?case using Cons.IH [OF es step] by (simp only:)
qed

lemma cleanStep_relative_solid:
  assumes "CHR ''/'' \<notin> set e" "\<forall>c \<in> set st. c \<noteq> [] \<and> CHR ''/'' \<notin> set c"
  shows "\<forall>c \<in> set (cleanStep False st e). c \<noteq> [] \<and> CHR ''/'' \<notin> set c"
proof (cases "e = [] \<or> e = ''.''")
  case True
  then show ?thesis using assms(2) by (simp only: cleanStep_cases if_True)
next
  case False
  show ?thesis
  proof (cases "e = ''..''")
    case True
    have dd: "''..'' \<noteq> [] \<and> CHR ''/'' \<notin> set ''..''" by simp
    show ?thesis
    proof (cases st)
      case Nil
      then have "cleanStep False st e = [''..'']" using True by simp
      then show ?thesis using dd by simp
    next
      case (Cons t ts)
      then have "cleanStep False st e = ''..'' # st \<or> cleanStep False st e = ts"
        using True by simp
      then show ?thesis using assms(2) Cons dd by auto
    qed
  next
    case ne: False
    then have "cleanStep False st e = e # st" using False by (simp only: cleanStep_cases if_False)
    moreover have "e \<noteq> []" using False by simp
    ultimately show ?thesis using assms by simp
  qed
qed

lemma foldl_relative_solid:
  "\<forall>e \<in> set es. CHR ''/'' \<notin> set e \<Longrightarrow> \<forall>c \<in> set st. c \<noteq> [] \<and> CHR ''/'' \<notin> set c \<Longrightarrow>
     \<forall>c \<in> set (foldl (cleanStep False) st es). c \<noteq> [] \<and> CHR ''/'' \<notin> set c"
proof (induction es arbitrary: st)
  case Nil
  then show ?case by simp
next
  case (Cons e es)
  have e: "CHR ''/'' \<notin> set e" and es: "\<forall>e \<in> set es. CHR ''/'' \<notin> set e"
    using Cons.prems(1) by simp_all
  have step: "\<forall>c \<in> set (cleanStep False st e). c \<noteq> [] \<and> CHR ''/'' \<notin> set c"
    using e Cons.prems(2) by (rule cleanStep_relative_solid)
  have "foldl (cleanStep False) st (e # es) = foldl (cleanStep False) (cleanStep False st e) es"
    by (simp only: foldl_Cons)
  then show ?case using Cons.IH [OF es step] by (simp only:)
qed

lemma joinSlash_ends:
  "out \<noteq> [] \<Longrightarrow> \<forall>c \<in> set out. c \<noteq> [] \<and> CHR ''/'' \<notin> set c \<Longrightarrow>
     joinSlash out \<noteq> [] \<and> hd (joinSlash out) \<noteq> CHR ''/'' \<and> last (joinSlash out) \<noteq> CHR ''/''"
proof (induction out rule: joinSlash.induct)
  case 1
  then show ?case by simp
next
  case (2 e)
  then have e: "e \<noteq> []" "CHR ''/'' \<notin> set e" by simp_all
  then have "hd e \<in> set e" "last e \<in> set e" by simp_all
  then have "hd e \<noteq> CHR ''/''" "last e \<noteq> CHR ''/''" using e(2) by metis+
  then show ?case using e(1) by simp
next
  case (3 e e' es)
  then have e: "e \<noteq> []" "CHR ''/'' \<notin> set e" by simp_all
  then have "hd e \<in> set e" by simp
  then have "hd e \<noteq> CHR ''/''" using e(2) by metis
  moreover have "joinSlash (e' # es) \<noteq> [] \<and> last (joinSlash (e' # es)) \<noteq> CHR ''/''"
    using 3 by simp
  ultimately show ?case using e(1) by simp
qed

lemma Clean_relative: "\<not> IsAbs p \<Longrightarrow> \<not> IsAbs (Clean p)"
proof -
  assume r: "\<not> IsAbs p"
  define out where "out = rev (foldl (cleanStep False) [] (elems p))"
  have solid: "\<forall>c \<in> set out. c \<noteq> [] \<and> CHR ''/'' \<notin> set c"
    unfolding out_def using foldl_relative_solid [of "elems p" "[]"] elems_no_slash by simp
  have C: "Clean p = (if p = [] \<or> out = [] then ''.'' else joinSlash out)"
    using r by (simp add: Clean_def Let_def out_def)
  show ?thesis
  proof (cases "p = [] \<or> out = []")
    case True
    then show ?thesis using C by (simp add: IsAbs_def HasPrefix_def)
  next
    case False
    then have "joinSlash out \<noteq> [] \<and> hd (joinSlash out) \<noteq> CHR ''/''"
      using joinSlash_ends [of out] solid by simp
    then show ?thesis using C False by (cases "joinSlash out") (auto simp: IsAbs_def HasPrefix_def)
  qed
qed

lemma Clean_rooted_shape:
  assumes "IsAbs p"
  shows "\<exists>cs. (\<forall>c \<in> set cs. name_elem c) \<and> Clean p = ''/'' @ joinSlash cs"
proof -
  have "\<forall>c \<in> set (foldl (cleanStep True) [] (elems p)). name_elem c"
    using foldl_rooted_names [of "elems p" "[]"] elems_no_slash by simp
  then have "\<forall>c \<in> set (rev (foldl (cleanStep True) [] (elems p))). name_elem c" by simp
  then show ?thesis using Clean_rooted [OF assms] by blast
qed

lemma Abs_is_Clean: "Abs w p = (e, Some d) \<Longrightarrow> d = [] \<or> (\<exists>q. d = Clean q)"
  by (auto simp: Abs_def Join_def split: if_splits option.splits)

lemma prepared_root_shape:
  assumes "prepareDirectory w dir = Some root" "IsAbs root" "root \<noteq> ''/''"
  shows "\<exists>cs. cs \<noteq> [] \<and> (\<forall>c \<in> set cs. name_elem c) \<and> root = ''/'' @ joinSlash cs @ ''/''"
proof -
  from assms(1) obtain e d where
    A: "Abs w (if dir = ''.'' then dir @ ''/'' else dir) = (e, Some d)"
    and root: "root = (if \<not> HasSuffix d ''/'' then d @ ''/'' else d)"
    by (auto simp: prepareDirectory_def Let_def split: prod.splits option.splits)
  have "d \<noteq> []" using root assms(3) by (auto simp: HasSuffix_def)
  then obtain q where q: "d = Clean q" using Abs_is_Clean [OF A] by blast
  have "IsAbs d"
    using assms(2) root \<open>d \<noteq> []\<close> by (cases d) (auto simp: IsAbs_def HasPrefix_def split: if_splits)
  then have "IsAbs q" using Clean_relative q by blast
  from Clean_rooted_shape [OF this] obtain cs where
    cs: "\<forall>c \<in> set cs. name_elem c" and d: "d = ''/'' @ joinSlash cs" using q by auto
  have ne: "cs \<noteq> []"
  proof
    assume "cs = []"
    then have "d = ''/''" using d by simp
    then show False using root assms(3) by (simp add: HasSuffix_def)
  qed
  have "\<forall>c \<in> set cs. c \<noteq> [] \<and> CHR ''/'' \<notin> set c" using cs by (simp add: name_elem_def)
  then have "joinSlash cs \<noteq> [] \<and> last (joinSlash cs) \<noteq> CHR ''/''"
    using joinSlash_ends [OF ne] by blast
  then have "last d \<noteq> CHR ''/''" using d by simp
  then have "\<not> HasSuffix d ''/''" by (auto simp: HasSuffix_def suffix_def)
  then have "root = ''/'' @ joinSlash cs @ ''/''" using root d by simp
  then show ?thesis using ne cs by blast
qed

text \<open>Cleaning a path that ends in a step up, from a canonical root.\<close>

lemma cleanStep_skip: "e = [] \<or> e = ''.'' \<Longrightarrow> cleanStep rt st e = st"
  by auto

lemma cleanStep_name: "name_elem e \<Longrightarrow> cleanStep rt st e = e # st"
  by (auto simp: name_elem_def)

lemma foldl_names_skipped:
  "\<forall>e \<in> set es. e = [] \<or> e = ''.'' \<or> name_elem e \<Longrightarrow>
     foldl (cleanStep rt) st es = rev (filter (\<lambda>e. e \<noteq> [] \<and> e \<noteq> ''.'') es) @ st"
proof (induction es arbitrary: st)
  case Nil
  then show ?case by simp
next
  case (Cons e es)
  have es: "\<forall>e \<in> set es. e = [] \<or> e = ''.'' \<or> name_elem e" using Cons.prems by simp
  have f: "foldl (cleanStep rt) st (e # es) = foldl (cleanStep rt) (cleanStep rt st e) es"
    by (simp only: foldl_Cons)
  show ?case
  proof (cases "e = [] \<or> e = ''.''")
    case True
    then have "cleanStep rt st e = st" by (rule cleanStep_skip)
    then show ?thesis using Cons.IH [OF es, of st] True f by auto
  next
    case False
    then have n: "name_elem e" using Cons.prems by simp
    then have "cleanStep rt st e = e # st" by (rule cleanStep_name)
    then show ?thesis using Cons.IH [OF es, of "e # st"] False f by auto
  qed
qed

lemma Clean_root_then_dotdot:
  assumes cs: "cs \<noteq> []" "\<forall>c \<in> set cs. name_elem c"
    and x: "elems x = es @ [''..'']" "\<forall>e \<in> set es. \<not> suffix ''..'' e"
    and ns: "ns = filter (\<lambda>e. e \<noteq> [] \<and> e \<noteq> ''.'') es"
  shows "Clean (''/'' @ joinSlash cs @ ''/'' @ x) = ''/'' @ joinSlash (butlast (cs @ ns))"
proof -
  have nsl: "\<forall>c \<in> set cs. CHR ''/'' \<notin> set c" using cs(2) by (simp add: name_elem_def)
  have E: "elems (''/'' @ joinSlash cs @ ''/'' @ x) = [] # cs @ es @ [''..'']"
    using elems_slash [of "joinSlash cs" x] elems_joinSlash [OF cs(1) nsl] x(1) by simp
  have kinds: "\<forall>e \<in> set es. e = [] \<or> e = ''.'' \<or> name_elem e"
  proof
    fix e assume e: "e \<in> set es"
    then have "e \<in> set (elems x)" using x(1) by simp
    then have "CHR ''/'' \<notin> set e" by (rule elems_no_slash)
    moreover have "e \<noteq> ''..''" using x(2) e by auto
    ultimately show "e = [] \<or> e = ''.'' \<or> name_elem e" by (auto simp: name_elem_def)
  qed
  have F1: "foldl (cleanStep True) [] ([] # cs) = rev cs"
    using foldl_names [OF cs(2), of True "[]"] by simp
  have F2: "foldl (cleanStep True) (rev cs) es = rev ns @ rev cs"
    using foldl_names_skipped [OF kinds, of True "rev cs"] ns by simp
  have F: "foldl (cleanStep True) [] ([] # cs @ es) = rev (cs @ ns)"
    using F1 F2 by (metis append_Cons foldl_append rev_append)
  have names: "\<forall>c \<in> set (cs @ ns). name_elem c"
    using cs(2) kinds ns by auto
  have ne: "cs @ ns \<noteq> []" using cs(1) by simp
  then have l: "last (cs @ ns) \<noteq> ''..''"
    using names last_in_set [OF ne] by (metis name_elem_def)
  have r: "rev (cs @ ns) = last (cs @ ns) # rev (butlast (cs @ ns))"
    using ne by (metis append_butlast_last_id rev.simps(2) rev_append rev_rev_ident append_Cons append_Nil rev_singleton_conv)
  have "foldl (cleanStep True) [] ([] # cs @ es @ [''..''])
          = cleanStep True (rev (cs @ ns)) ''..''"
    using F by (metis append_Cons append_assoc foldl_Cons foldl_Nil foldl_append)
  also have "\<dots> = cleanStep True (last (cs @ ns) # rev (butlast (cs @ ns))) ''..''"
    by (simp only: r)
  also have "\<dots> = rev (butlast (cs @ ns))" using l by simp
  finally have G: "foldl (cleanStep True) [] ([] # cs @ es @ [''..''])
                     = rev (butlast (cs @ ns))" .
  have "IsAbs (''/'' @ joinSlash cs @ ''/'' @ x)" by (simp add: IsAbs_def HasPrefix_def)
  from Clean_rooted [OF this] show ?thesis by (simp only: E G rev_rev_ident)
qed

lemma length_joinSlash_short:
  assumes "cs \<noteq> []" "last cs \<noteq> []" "length ns \<le> 1"
  shows "length (joinSlash (butlast (cs @ ns))) \<le> length (joinSlash cs)"
proof (cases ns)
  case Nil
  then show ?thesis using length_joinSlash_butlast [OF assms(1,2)] by simp
next
  case (Cons n ns')
  then have "ns = [n]" using assms(3) by simp
  then show ?thesis by (simp add: butlast_append)
qed

lemma dotdot_near_canonical_root:
  assumes "Method r = ''GET''"
    and "Path r = CHR ''/'' # x" "elems x = es @ [''..'']"
    and "\<forall>e \<in> set es. \<not> HasSuffix e ''..''"
    and "length (filter (\<lambda>e. e \<noteq> [] \<and> e \<noteq> ''.'') es) \<le> 1"
    and "RootString s = ''/'' @ joinSlash cs @ ''/''" "cs \<noteq> []" "\<forall>c \<in> set cs. name_elem c"
  shows "\<not> Contains (Path r) ''../'' \<and>
         (\<exists>p. resolved fl w s r = Some p \<and> length p < length (RootString s) \<and>
              \<not> HasPrefix p (RootString s)) \<and>
         (\<exists>tr. ServeHTTP fl w s r = Returned (tr @ [NotFound])) \<and>
         filter (\<lambda>a. is_read a \<or> is_body a) (events (ServeHTTP fl w s r)) = [] \<and>
         response (ServeHTTP fl w s r) = apply_event writer1 NotFound \<and>
         status (response (ServeHTTP fl w s r)) = Some 404 \<and>
         body (response (ServeHTTP fl w s r)) = ''404 page not found'' @ [CHR 0x0A]"
proof -
  have nsuf: "\<forall>e \<in> set es. \<not> suffix ''..'' e" using assms(4) by (simp add: HasSuffix_def)
  have guard: "\<not> Contains (Path r) ''../''"
  proof
    assume "Contains (Path r) ''../''"
    from Contains_dotdot_slash [OF this] obtain e where
      e: "e \<in> set (butlast (elems (Path r)))" "suffix ''..'' e" by blast
    have "elems (Path r) = [] # es @ [''..'']" using assms(2,3) by simp
    then have "butlast (elems (Path r)) = [] # es" by (simp add: butlast_append)
    then have "e = [] \<or> e \<in> set es" using e(1) by auto
    then show False using e(2) nsuf by (auto simp: suffix_def)
  qed
  define ns where "ns = filter (\<lambda>e. e \<noteq> [] \<and> e \<noteq> ''.'') es"
  have T: "target fl s (Path r) = ''/'' @ joinSlash cs @ ''/'' @ x"
    using dotdot_target [OF assms(6,3)] assms(2) by simp
  have C: "Clean (target fl s (Path r)) = ''/'' @ joinSlash (butlast (cs @ ns))"
    unfolding T by (rule Clean_root_then_dotdot [OF assms(7,8,3) nsuf ns_def])
  have A: "Abs w (target fl s (Path r)) = ([], Some (''/'' @ joinSlash (butlast (cs @ ns))))"
    using C by (simp add: Abs_def T IsAbs_def HasPrefix_def)
  define p where "p = snd (trymd w (''/'' @ joinSlash (butlast (cs @ ns))))"
  have R: "resolved fl w s r = Some p"
    using assms(1,2) guard A by (simp add: resolved_def p_def)
  have "last cs \<noteq> []" using assms(7,8) by (auto simp: name_elem_def)
  then have "length (joinSlash (butlast (cs @ ns))) \<le> length (joinSlash cs)"
    using length_joinSlash_short [OF assms(7)] assms(5) ns_def by blast
  moreover have "length p \<le> length (''/'' @ joinSlash (butlast (cs @ ns)))"
    unfolding p_def by (rule trymd_length)
  ultimately have len: "length p < length (RootString s)" using assms(6) by simp
  then have np: "\<not> HasPrefix p (RootString s)"
    by (auto simp: HasPrefix_def dest: prefix_length_le)
  then have bad: "\<not> (snd (fileisgood w p) \<and> HasPrefix p (RootString s))" by simp
  have U: "response (ServeHTTP fl w s r) = apply_event writer1 NotFound"
    using guard_failure_uniform [OF R bad] by blast
  have "status (response (ServeHTTP fl w s r)) = Some 404 \<and>
        body (response (ServeHTTP fl w s r)) = ''404 page not found'' @ [CHR 0x0A]"
    unfolding U using NotFound_after_headers by blast
  with guard_failure_not_found [OF R bad] guard R len np U show ?thesis by blast
qed

subsection \<open>The claims\<close>

text \<open>
  Claim C1. A request whose URL path contains \<^verbatim>\<open>../\<close> is answered by \<^verbatim>\<open>http.NotFound\<close>
  and nothing else happens: the trace is that single call, so no file-system call
  (working directory, open, symlink resolution, read) was made, whatever the method.
\<close>

theorem dotdot_slash_rejected:
  "Contains (Path r) ''../'' \<Longrightarrow>
     ServeHTTP fl w s r = Returned [NotFound] \<and> fs_calls (ServeHTTP fl w s r) = []"
  by (simp add: ServeHTTP_def fs_calls_def)

theorem dotdot_slash_rejected_witness:
  "Contains (Path (get ''/a/../secret'' [])) ''../'' \<and>
   ServeHTTP default_flags (site) www (get ''/a/../secret'' [])
     = Returned [NotFound] \<and>
   fs_calls (ServeHTTP default_flags (site) www (get ''/a/../secret'' [])) = []"
proof -
  have h: "Contains (Path (get ''/a/../secret'' [])) ''../''"
    by (simp add: get_def Contains_eval)
  show ?thesis
    using h dotdot_slash_rejected [OF h, of default_flags "site" www]
    by blast
qed

text \<open>
  Claim C2. In every trace of the handler, an event that reads a file's contents
  (\<^verbatim>\<open>ioutil.ReadFile\<close>, \<^verbatim>\<open>http.ServeFile\<close>) or sends body bytes (\<^verbatim>\<open>w.Write\<close>,
  \<^verbatim>\<open>http.ServeFile\<close>) occurs only where the final resolved path \<open>p\<close> passed
  \<^verbatim>\<open>fileisgood\<close> and has the root as prefix; the calls of \<^verbatim>\<open>fileisgood\<close> lie in the part
  of the trace before the first such event; the event is about \<open>p\<close> itself, and bytes
  written are the bytes read from \<open>p\<close> or their rendering. Where one of the two checks
  fails on the resolved path, the trace has no such event: after the two header
  additions it only asks the system about paths and then calls \<^verbatim>\<open>http.NotFound\<close> once, and
  the response is the one not-found response, the same whichever check failed and
  whatever the path: status 404, the body \<^verbatim>\<open>404 page not found\<close> with a newline, and the
  handler's two headers with the two that \<^verbatim>\<open>http.NotFound\<close> sets.
\<close>

theorem contents_only_after_guards:
  "(\<forall>e \<in> set (events (ServeHTTP fl w s r)). is_read e \<or> is_body e \<longrightarrow>
      (\<exists>p. resolved fl w s r = Some p \<and>
           snd (fileisgood w p) \<and> HasPrefix p (RootString s) \<and>
           fst (fileisgood w p) \<noteq> [] \<and>
           set (fst (fileisgood w p))
             \<subseteq> set (takeWhile (\<lambda>a. \<not> is_read a \<and> \<not> is_body a) (events (ServeHTTP fl w s r))) \<and>
           (e = ReadFile p \<or> e = ServeFile p \<or>
            (\<exists>b. readFile w p = Some b \<and> (e = Write b \<or> e = Write (markdownCommon w b))))))
   \<and>
   (\<forall>p. resolved fl w s r = Some p \<and> \<not> (snd (fileisgood w p) \<and> HasPrefix p (RootString s)) \<longrightarrow>
      filter (\<lambda>a. is_read a \<or> is_body a) (events (ServeHTTP fl w s r)) = [] \<and>
      (\<exists>tr. ServeHTTP fl w s r = Returned (tr @ [NotFound])) \<and>
      (\<exists>pre. ServeHTTP fl w s r = Returned (headers0 @ pre @ [NotFound]) \<and>
             (\<forall>a \<in> set pre. probe a)) \<and>
      response (ServeHTTP fl w s r) = apply_event writer1 NotFound \<and>
      status (response (ServeHTTP fl w s r)) = Some 404 \<and>
      body (response (ServeHTTP fl w s r)) = ''404 page not found'' @ [CHR 0x0A] \<and>
      sent (response (ServeHTTP fl w s r)) =
        [(''Server'', serverheader), (''X-Frame-Options'', ''DENY''),
         (''Content-Type'', ''text/plain; charset=utf-8''),
         (''X-Content-Type-Options'', ''nosniff'')])"
proof (intro conjI)
  show "\<forall>e \<in> set (events (ServeHTTP fl w s r)). is_read e \<or> is_body e \<longrightarrow>
      (\<exists>p. resolved fl w s r = Some p \<and>
           snd (fileisgood w p) \<and> HasPrefix p (RootString s) \<and>
           fst (fileisgood w p) \<noteq> [] \<and>
           set (fst (fileisgood w p))
             \<subseteq> set (takeWhile (\<lambda>a. \<not> is_read a \<and> \<not> is_body a) (events (ServeHTTP fl w s r))) \<and>
           (e = ReadFile p \<or> e = ServeFile p \<or>
            (\<exists>b. readFile w p = Some b \<and> (e = Write b \<or> e = Write (markdownCommon w b)))))"
    using reads_guarded [of _ fl w s r] by blast
next
  have "filter (\<lambda>a. is_read a \<or> is_body a) (events (ServeHTTP fl w s r)) = [] \<and>
      (\<exists>tr. ServeHTTP fl w s r = Returned (tr @ [NotFound])) \<and>
      (\<exists>pre. ServeHTTP fl w s r = Returned (headers0 @ pre @ [NotFound]) \<and>
             (\<forall>a \<in> set pre. probe a)) \<and>
      response (ServeHTTP fl w s r) = apply_event writer1 NotFound \<and>
      status (response (ServeHTTP fl w s r)) = Some 404 \<and>
      body (response (ServeHTTP fl w s r)) = ''404 page not found'' @ [CHR 0x0A] \<and>
      sent (response (ServeHTTP fl w s r)) =
        [(''Server'', serverheader), (''X-Frame-Options'', ''DENY''),
         (''Content-Type'', ''text/plain; charset=utf-8''),
         (''X-Content-Type-Options'', ''nosniff'')]"
    if R: "resolved fl w s r = Some p"
      and bad: "\<not> (snd (fileisgood w p) \<and> HasPrefix p (RootString s))" for p
  proof -
    note A = guard_failure_not_found [OF R bad]
    note B = guard_failure_uniform [OF R bad]
    have C: "response (ServeHTTP fl w s r) = apply_event writer1 NotFound" using B by blast
    show ?thesis using A B NotFound_after_headers unfolding C by blast
  qed
  then show "\<forall>p. resolved fl w s r = Some p \<and>
      \<not> (snd (fileisgood w p) \<and> HasPrefix p (RootString s)) \<longrightarrow>
      filter (\<lambda>a. is_read a \<or> is_body a) (events (ServeHTTP fl w s r)) = [] \<and>
      (\<exists>tr. ServeHTTP fl w s r = Returned (tr @ [NotFound])) \<and>
      (\<exists>pre. ServeHTTP fl w s r = Returned (headers0 @ pre @ [NotFound]) \<and>
             (\<forall>a \<in> set pre. probe a)) \<and>
      response (ServeHTTP fl w s r) = apply_event writer1 NotFound \<and>
      status (response (ServeHTTP fl w s r)) = Some 404 \<and>
      body (response (ServeHTTP fl w s r)) = ''404 page not found'' @ [CHR 0x0A] \<and>
      sent (response (ServeHTTP fl w s r)) =
        [(''Server'', serverheader), (''X-Frame-Options'', ''DENY''),
         (''Content-Type'', ''text/plain; charset=utf-8''),
         (''X-Content-Type-Options'', ''nosniff'')]"
    by blast
qed

theorem contents_only_after_guards_witness:
  "ReadFile ''/srv/www/index.md'' \<in> set (events (ServeHTTP default_flags site www (get ''/'' []))) \<and>
   is_read (ReadFile ''/srv/www/index.md'') \<and>
   (\<exists>p. resolved default_flags site www (get ''/'' []) = Some p \<and>
        snd (fileisgood site p) \<and> HasPrefix p (RootString www) \<and>
        (ReadFile ''/srv/www/index.md'' = ReadFile p \<or> ReadFile ''/srv/www/index.md'' = ServeFile p \<or>
         (\<exists>b. readFile site p = Some b \<and>
            (ReadFile ''/srv/www/index.md'' = Write b \<or>
             ReadFile ''/srv/www/index.md'' = Write (markdownCommon site b))))) \<and>
   resolved default_flags site www (get ''/link.md'' []) = Some ''/srv/www/link.md'' \<and>
   \<not> (snd (fileisgood site ''/srv/www/link.md'') \<and> HasPrefix ''/srv/www/link.md'' (RootString www)) \<and>
   filter (\<lambda>a. is_read a \<or> is_body a) (events (ServeHTTP default_flags site www (get ''/link.md'' []))) = [] \<and>
   (\<exists>tr. ServeHTTP default_flags site www (get ''/link.md'' []) = Returned (tr @ [NotFound])) \<and>
   response (ServeHTTP default_flags site www (get ''/link.md'' [])) = apply_event writer1 NotFound \<and>
   status (response (ServeHTTP default_flags site www (get ''/link.md'' []))) = Some 404 \<and>
   body (response (ServeHTTP default_flags site www (get ''/link.md'' [])))
     = ''404 page not found'' @ [CHR 0x0A]"
proof -
  have a: "ReadFile ''/srv/www/index.md''
             \<in> set (events (ServeHTTP default_flags site www (get ''/'' [])))"
    by code_simp
  have b: "is_read (ReadFile ''/srv/www/index.md'')" by simp
  have c: "resolved default_flags site www (get ''/link.md'' []) = Some ''/srv/www/link.md''"
    by code_simp
  have d: "\<not> (snd (fileisgood site ''/srv/www/link.md'') \<and>
               HasPrefix ''/srv/www/link.md'' (RootString www))"
    by code_simp
  note T1 = contents_only_after_guards [of default_flags site www "get ''/'' []"]
  note T2 = contents_only_after_guards [of default_flags site www "get ''/link.md'' []"]
  from T1 a b have 1:
    "\<exists>p. resolved default_flags site www (get ''/'' []) = Some p \<and>
        snd (fileisgood site p) \<and> HasPrefix p (RootString www) \<and>
        (ReadFile ''/srv/www/index.md'' = ReadFile p \<or> ReadFile ''/srv/www/index.md'' = ServeFile p \<or>
         (\<exists>b. readFile site p = Some b \<and>
            (ReadFile ''/srv/www/index.md'' = Write b \<or>
             ReadFile ''/srv/www/index.md'' = Write (markdownCommon site b))))"
    by blast
  from T2 c d have 2:
    "filter (\<lambda>a. is_read a \<or> is_body a) (events (ServeHTTP default_flags site www (get ''/link.md'' []))) = [] \<and>
     (\<exists>tr. ServeHTTP default_flags site www (get ''/link.md'' []) = Returned (tr @ [NotFound])) \<and>
     response (ServeHTTP default_flags site www (get ''/link.md'' [])) = apply_event writer1 NotFound \<and>
     status (response (ServeHTTP default_flags site www (get ''/link.md'' []))) = Some 404 \<and>
     body (response (ServeHTTP default_flags site www (get ''/link.md'' [])))
       = ''404 page not found'' @ [CHR 0x0A]"
    by blast
  show ?thesis using a b c d 1 2 by blast
qed

text \<open>
  Claim C3. \<^verbatim>\<open>fileisgood(p)\<close> is true exactly when \<open>p\<close> is not empty, the path is made
  absolute without error (a path that is absolute already is taken as it is; a relative
  one is joined to the working directory, which must be available),
  \<^verbatim>\<open>filepath.EvalSymlinks\<close> succeeds on it, and the real path it returns equals that
  absolute path byte for byte. Every error and every difference gives false.
\<close>

theorem fileisgood_iff:
  "snd (fileisgood w p) \<longleftrightarrow>
     p \<noteq> [] \<and>
     (\<exists>canon. (if IsAbs p then Some p else map_option (\<lambda>wd. Join wd p) (getwd w)) = Some canon \<and>
              evalSymlinks w canon = Some canon)"
  by (auto simp: fileisgood_def Abs_def split: option.splits)

theorem fileisgood_iff_witness:
  "snd (fileisgood site ''/srv/www/index.md'') \<and> \<not> snd (fileisgood site ''/srv/www/link.md'') \<and>
   \<not> snd (fileisgood site ''/srv/www/missing'') \<and> \<not> snd (fileisgood site [])"
proof -
  have "evalSymlinks site ''/srv/www/index.md'' = Some ''/srv/www/index.md''" by code_simp
  moreover have "evalSymlinks site ''/srv/www/link.md'' = Some ''/etc/passwd''" by code_simp
  moreover have "evalSymlinks site ''/srv/www/missing'' = None" by code_simp
  ultimately show ?thesis
    using fileisgood_iff [of site "''/srv/www/index.md''"]
      fileisgood_iff [of site "''/srv/www/link.md''"]
      fileisgood_iff [of site "''/srv/www/missing''"]
      fileisgood_iff [of site "[]"]
    by (simp add: IsAbs_def HasPrefix_def)
qed

text \<open>
  Claim C4, as stated: every \<^verbatim>\<open>GET\<close> request whose path ends in \<^verbatim>\<open>..\<close>, \<^verbatim>\<open>/a/b/..\<close> for
  one, is answered not-found. The root \<^verbatim>\<open>/srv/www/\<close> is the one \<^verbatim>\<open>prepareDirectory\<close>
  returns for \<^verbatim>\<open>/srv/www\<close>; the guard does not fire on \<^verbatim>\<open>/a/b/..\<close>, and \<^verbatim>\<open>filepath.Abs\<close>
  turns \<^verbatim>\<open>/srv/www/a/b/..\<close> into \<^verbatim>\<open>/srv/www/a\<close>, inside the root: where that is a regular
  file the handler answers 200 with its bytes.
\<close>

theorem dotdot_path_served:
  "Method (get ''/a/b/..'' []) = ''GET'' \<and>
   HasSuffix (Path (get ''/a/b/..'' [])) ''..'' \<and>
   \<not> Contains (Path (get ''/a/b/..'' [])) ''../'' \<and>
   prepareDirectory site ''/srv/www'' = Some (RootString www) \<and>
   RootString www \<noteq> ''/'' \<and>
   resolved default_flags site www (get ''/a/b/..'' []) = Some ''/srv/www/a'' \<and>
   HasPrefix ''/srv/www/a'' (RootString www) \<and>
   ServeHTTP default_flags site www (get ''/a/b/..'' []) =
     Returned [HeaderAdd ''Server'' ''markdownd/0.0.6'', HeaderAdd ''X-Frame-Options'' ''DENY'',
       Open ''/srv/www/a'', EvalSymlinks ''/srv/www/a'', ReadFile ''/srv/www/a'',
       HeaderAdd ''Content-Type'' ''text/html'', Write ''<html>x</html>''] \<and>
   status (response (ServeHTTP default_flags site www (get ''/a/b/..'' []))) = Some 200 \<and>
   body (response (ServeHTTP default_flags site www (get ''/a/b/..'' []))) = ''<html>x</html>''"
  by code_simp

text \<open>
  Claim C4, amended. For every \<^verbatim>\<open>GET\<close> request whose path ends in a \<^verbatim>\<open>..\<close> element, with
  no earlier element ending in \<^verbatim>\<open>..\<close> and at most one earlier element other than the
  empty one and \<^verbatim>\<open>.\<close> (\<^verbatim>\<open>/..\<close>, \<^verbatim>\<open>//..\<close>, \<^verbatim>\<open>/a/..\<close>, not \<^verbatim>\<open>/a/b/..\<close>), and every root that
  \<^verbatim>\<open>prepareDirectory\<close> returns (absolute, cleaned, ending in a slash) other than \<^verbatim>\<open>/\<close>:
  the \<^verbatim>\<open>../\<close> guard does not fire; \<^verbatim>\<open>filepath.Abs\<close> turns the concatenated path into the
  root directory without its final slash or into its parent, so the resolved path is
  shorter than the root string and does not have it as prefix; no file's contents are
  read, no body bytes of a file are sent, and the response is the not-found response.
\<close>

theorem dotdot_above_root:
  assumes "Method r = ''GET''"
    and "Path r = CHR ''/'' # x" "elems x = es @ [''..'']"
    and "\<forall>e \<in> set es. \<not> HasSuffix e ''..''"
    and "length (filter (\<lambda>e. e \<noteq> [] \<and> e \<noteq> ''.'') es) \<le> 1"
    and "prepareDirectory w0 dir = Some (RootString s)" "IsAbs (RootString s)"
      "RootString s \<noteq> ''/''"
  shows "\<not> Contains (Path r) ''../'' \<and>
         (\<exists>p. resolved fl w s r = Some p \<and> length p < length (RootString s) \<and>
              \<not> HasPrefix p (RootString s)) \<and>
         (\<exists>tr. ServeHTTP fl w s r = Returned (tr @ [NotFound])) \<and>
         filter (\<lambda>a. is_read a \<or> is_body a) (events (ServeHTTP fl w s r)) = [] \<and>
         response (ServeHTTP fl w s r) = apply_event writer1 NotFound \<and>
         status (response (ServeHTTP fl w s r)) = Some 404 \<and>
         body (response (ServeHTTP fl w s r)) = ''404 page not found'' @ [CHR 0x0A]"
proof -
  from prepared_root_shape [OF assms(6-8)] obtain cs where
    cs: "cs \<noteq> []" "\<forall>c \<in> set cs. name_elem c" "RootString s = ''/'' @ joinSlash cs @ ''/''"
    by blast
  from dotdot_near_canonical_root [OF assms(1-5) cs(3,1,2), where w = w and fl = fl]
  show ?thesis by blast
qed

theorem dotdot_above_root_witness:
  "Method (get ''/a/..'' []) = ''GET'' \<and>
   Path (get ''/a/..'' []) = CHR ''/'' # ''a/..'' \<and>
   elems ''a/..'' = [''a''] @ [''..''] \<and>
   prepareDirectory site ''/srv/www'' = Some (RootString www) \<and>
   IsAbs (RootString www) \<and> RootString www \<noteq> ''/'' \<and>
   \<not> Contains (Path (get ''/a/..'' [])) ''../'' \<and>
   (\<exists>p. resolved default_flags site www (get ''/a/..'' []) = Some p \<and>
        \<not> HasPrefix p (RootString www)) \<and>
   filter (\<lambda>a. is_read a \<or> is_body a) (events (ServeHTTP default_flags site www (get ''/a/..'' []))) = [] \<and>
   status (response (ServeHTTP default_flags site www (get ''/a/..'' []))) = Some 404"
proof -
  have a1: "Method (get ''/a/..'' []) = ''GET''" by code_simp
  have a2: "Path (get ''/a/..'' []) = CHR ''/'' # ''a/..''" by code_simp
  have a3: "elems ''a/..'' = [''a''] @ [''..'']" by code_simp
  have a4: "\<forall>e \<in> set [''a'']. \<not> HasSuffix e ''..''" by code_simp
  have a5: "length (filter (\<lambda>e. e \<noteq> [] \<and> e \<noteq> ''.'') [''a'']) \<le> 1" by code_simp
  have a6: "prepareDirectory site ''/srv/www'' = Some (RootString www)" by code_simp
  have a7: "IsAbs (RootString www)" by code_simp
  have a8: "RootString www \<noteq> ''/''" by code_simp
  from dotdot_above_root [OF a1 a2 a3 a4 a5 a6 a7 a8, where w = site and fl = default_flags]
    a1 a2 a3 a6 a7 a8
  show ?thesis by blast
qed


text \<open>
  Claim C5, as stated: a request for \<^verbatim>\<open>page.html\<close> with \<^verbatim>\<open>page.md\<close> beside it is answered
  with the rendered markdown of \<^verbatim>\<open>page.md\<close>. On the example disk \<^verbatim>\<open>page.md\<close> opens and
  holds \<^verbatim>\<open><h1>T</h1>\<close>, which is sniffed as HTML: the handler sends these bytes as they
  are, with content type \<^verbatim>\<open>text/html\<close>, and the renderer is not called.
\<close>

theorem html_request_not_always_rendered:
  "HasSuffix (Path (get ''/page.html'' [])) ''.html'' \<and>
   openErr site ''/srv/www/page.md'' = None \<and>
   readFile site ''/srv/www/page.md'' = Some ''<h1>T</h1>'' \<and>
   ServeHTTP default_flags site www (get ''/page.html'' []) =
     Returned [HeaderAdd ''Server'' ''markdownd/0.0.6'', HeaderAdd ''X-Frame-Options'' ''DENY'',
       Open ''/srv/www/page.md'', Open ''/srv/www/page.md'', EvalSymlinks ''/srv/www/page.md'',
       ReadFile ''/srv/www/page.md'', HeaderAdd ''Content-Type'' ''text/html'',
       Write ''<h1>T</h1>''] \<and>
   body (response (ServeHTTP default_flags site www (get ''/page.html'' []))) = ''<h1>T</h1>'' \<and>
   body (response (ServeHTTP default_flags site www (get ''/page.html'' [])))
     \<noteq> markdownCommon site ''<h1>T</h1>''"
  by code_simp

text \<open>
  Claim C5, amended. For a \<^verbatim>\<open>GET\<close> request whose path ends in \<^verbatim>\<open>.html\<close> (and passes the
  \<^verbatim>\<open>../\<close> guard), where the file with the same stem and the extension \<^verbatim>\<open>.md\<close> opens, the
  \<^verbatim>\<open>.md\<close> path takes the place of the \<^verbatim>\<open>.html\<close> path before the existence check, the
  guards, the read and the classification: it is the resolved path, and the only file
  whose contents are read. The response is the rendered markdown of the \<^verbatim>\<open>.md\<close> file
  where, in addition, both guards pass, the file is read, its bytes classify as
  \<^verbatim>\<open>text/plain\<close> and the query string does not contain \<^verbatim>\<open>raw\<close>.
\<close>

theorem html_request_moves_to_md:
  assumes "Method r = ''GET''" "\<not> Contains (Path r) ''../''"
    and "HasPrefix (Path r) ''/''" "HasSuffix (Path r) ''.html''"
    and "Abs w (target fl s (Path r)) = (e, Some html)"
    and "md = TrimSuffix html ''.html'' @ ''.md''" "openErr w md = None"
  shows "HasSuffix html ''.html'' \<and> md \<noteq> html \<and> HasSuffix md ''.md'' \<and>
         resolved fl w s r = Some md \<and>
         (\<forall>ev \<in> set (events (ServeHTTP fl w s r)).
             is_read ev \<longrightarrow> ev = ReadFile md \<or> ev = ServeFile md) \<and>
         (\<forall>b. snd (fileisgood w md) \<and> HasPrefix md (RootString s) \<and> readFile w md = Some b \<and>
              HasPrefix (detectContentType w b) ''text/plain'' \<and>
              \<not> Contains (RawQuery r) ''raw'' \<longrightarrow>
              status (response (ServeHTTP fl w s r)) = Some 200 \<and>
              body (response (ServeHTTP fl w s r)) = markdownCommon w b)"
proof -
  have "suffix ''.html'' (target fl s (Path r))"
    by (rule target_suffix [OF assms(3,4)]) simp_all
  then have h: "suffix ''.html'' html" using Abs_suffix [OF assms(5)] by simp
  have ne: "Path r \<noteq> []" using assms(3) by (auto simp: HasPrefix_def)
  have T: "trymd w html = ([Open md], md)"
    using h assms(6,7) by (simp add: trymd_def HasSuffix_def Let_def)
  have R: "resolved fl w s r = Some md"
    using assms(1,2,5) ne T by (simp add: resolved_def)
  have m: "HasSuffix md ''.md''" by (simp add: assms(6) HasSuffix_def suffix_def)
  have reads: "ev = ReadFile md \<or> ev = ServeFile md"
    if "ev \<in> set (events (ServeHTTP fl w s r))" "is_read ev" for ev
  proof -
    from reads_guarded [OF that(1)] that(2) R
    have "ev = ReadFile md \<or> ev = ServeFile md \<or>
          (\<exists>b. readFile w md = Some b \<and> (ev = Write b \<or> ev = Write (markdownCommon w b)))"
      by auto
    then show ?thesis using that(2) by auto
  qed
  have rendered: "status (response (ServeHTTP fl w s r)) = Some 200 \<and>
        body (response (ServeHTTP fl w s r)) = markdownCommon w b"
    if "snd (fileisgood w md)" "HasPrefix md (RootString s)" "readFile w md = Some b"
       "HasPrefix (detectContentType w b) ''text/plain''" "\<not> Contains (RawQuery r) ''raw''" for b
  proof -
    from response_served [OF R assms(7) that(1-3)]
    have "response (ServeHTTP fl w s r) = foldl apply_event writer1 (render w r md b)" by blast
    then show ?thesis
      using render_markdown [OF m that(4), of r] that(5)
      by (simp add: writer1_def writer0_def WriteBytes_def WriteHeader_def Let_def)
  qed
  show ?thesis
    using h html_to_md_differs [OF h] assms(6) m R reads rendered
    by (simp add: HasSuffix_def)
qed


theorem html_request_moves_to_md_witness:
  "Method (get ''/doc.html'' []) = ''GET'' \<and>
   \<not> Contains (Path (get ''/doc.html'' [])) ''../'' \<and>
   HasPrefix (Path (get ''/doc.html'' [])) ''/'' \<and>
   HasSuffix (Path (get ''/doc.html'' [])) ''.html'' \<and>
   Abs site (target default_flags www (Path (get ''/doc.html'' []))) = ([], Some ''/srv/www/doc.html'') \<and>
   ''/srv/www/doc.md'' = TrimSuffix ''/srv/www/doc.html'' ''.html'' @ ''.md'' \<and>
   openErr site ''/srv/www/doc.md'' = None \<and>
   resolved default_flags site www (get ''/doc.html'' []) = Some ''/srv/www/doc.md'' \<and>
   status (response (ServeHTTP default_flags site www (get ''/doc.html'' []))) = Some 200 \<and>
   body (response (ServeHTTP default_flags site www (get ''/doc.html'' []))) = markdownCommon site ''# Doc''"
proof -
  have a1: "Method (get ''/doc.html'' []) = ''GET''" by code_simp
  have a2: "\<not> Contains (Path (get ''/doc.html'' [])) ''../''" by code_simp
  have a3: "HasPrefix (Path (get ''/doc.html'' [])) ''/''" by code_simp
  have a4: "HasSuffix (Path (get ''/doc.html'' [])) ''.html''" by code_simp
  have a5: "Abs site (target default_flags www (Path (get ''/doc.html'' [])))
              = ([], Some ''/srv/www/doc.html'')" by code_simp
  have a6: "''/srv/www/doc.md'' = TrimSuffix ''/srv/www/doc.html'' ''.html'' @ ''.md''" by code_simp
  have a7: "openErr site ''/srv/www/doc.md'' = None" by code_simp
  have g: "snd (fileisgood site ''/srv/www/doc.md'') \<and>
           HasPrefix ''/srv/www/doc.md'' (RootString www) \<and>
           readFile site ''/srv/www/doc.md'' = Some ''# Doc'' \<and>
           HasPrefix (detectContentType site ''# Doc'') ''text/plain'' \<and>
           \<not> Contains (RawQuery (get ''/doc.html'' [])) ''raw''" by code_simp
  note T = html_request_moves_to_md [OF a1 a2 a3 a4 a5 a6 a7]
  from T g have
    "resolved default_flags site www (get ''/doc.html'' []) = Some ''/srv/www/doc.md'' \<and>
     status (response (ServeHTTP default_flags site www (get ''/doc.html'' []))) = Some 200 \<and>
     body (response (ServeHTTP default_flags site www (get ''/doc.html'' []))) = markdownCommon site ''# Doc''"
    by blast
  then show ?thesis using a1 a2 a3 a4 a5 a6 a7 by blast
qed




text \<open>
  Claim C7. The flag \<^verbatim>\<open>-index\<close> is documented as the page to use for paths ending in
  \<^verbatim>\<open>/\<close>, and the comment of line 173 says that the index page is added. With
  \<^verbatim>\<open>-index home.md\<close> the handler uses \<^verbatim>\<open>home.md\<close> for the path \<^verbatim>\<open>/\<close>, but for \<^verbatim>\<open>/docs/\<close>
  it appends the literal \<^verbatim>\<open>index.md\<close> of line 175: \<^verbatim>\<open>docs/home.md\<close> exists and opens,
  \<^verbatim>\<open>docs/index.md\<close> does not, and the request is answered not-found.
\<close>

theorem index_flag_ignored_in_directories:
  "indexPage home_flags = ''home.md'' \<and>
   target home_flags www ''/'' = ''/srv/www/home.md'' \<and>
   target home_flags www ''/docs/'' = ''/srv/www/docs/index.md'' \<and>
   openErr site ''/srv/www/docs/home.md'' = None \<and>
   resolved home_flags site www (get ''/docs/'' []) = Some ''/srv/www/docs/index.md'' \<and>
   ServeHTTP home_flags site www (get ''/docs/'' []) =
     Returned [HeaderAdd ''Server'' ''markdownd/0.0.6'', HeaderAdd ''X-Frame-Options'' ''DENY'',
       Open ''/srv/www/docs/index.md'', NotFound]"
  by code_simp

theorem index_flag_ignored_in_directories_witness:
  "Method (get ''/docs/'' []) = ''GET'' \<and>
   \<not> Contains (Path (get ''/docs/'' [])) ''../'' \<and>
   Path (get ''/docs/'' []) \<noteq> [] \<and>
   HasSuffix (Path (get ''/docs/'' [])) ''/'' \<and>
   resolved home_flags site www (get ''/docs/'' [])
     \<noteq> Some (RootString www @ ''docs/'' @ indexPage home_flags) \<and>
   ServeHTTP home_flags site www (get ''/docs/'' []) =
     Returned (headers0 @ [Open ''/srv/www/docs/index.md'', NotFound])"
proof -
  have a: "Method (get ''/docs/'' []) = ''GET'' \<and>
           \<not> Contains (Path (get ''/docs/'' [])) ''../'' \<and>
           Path (get ''/docs/'' []) \<noteq> [] \<and>
           HasSuffix (Path (get ''/docs/'' [])) ''/''" by code_simp
  have b: "RootString www @ ''docs/'' @ ''home.md'' \<noteq> ''/srv/www/docs/index.md''"
    by code_simp
  have c: "headers0 = [HeaderAdd ''Server'' ''markdownd/0.0.6'',
                       HeaderAdd ''X-Frame-Options'' ''DENY'']" by code_simp
  from index_flag_ignored_in_directories a b c show ?thesis by simp
qed

text \<open>
  Claim C8, as stated: every response, the not-found responses of the early exits
  included, carries the \<^verbatim>\<open>Server\<close> and \<^verbatim>\<open>X-Frame-Options\<close> headers. The method guard
  answers a \<^verbatim>\<open>POST\<close> before the handler has added them: the 404 goes out without both.
\<close>

theorem guard_rejection_without_headers:
  "status (response (ServeHTTP default_flags site www (post ''/index.md''))) = Some 404 \<and>
   carried (response (ServeHTTP default_flags site www (post ''/index.md''))) =
     [(''Content-Type'', ''text/plain; charset=utf-8''), (''X-Content-Type-Options'', ''nosniff'')] \<and>
   (''Server'', serverheader)
     \<notin> set (carried (response (ServeHTTP default_flags site www (post ''/index.md'')))) \<and>
   (''X-Frame-Options'', ''DENY'')
     \<notin> set (carried (response (ServeHTTP default_flags site www (post ''/index.md''))))"
  by code_simp

text \<open>
  Claim C8, amended. Every response to a \<^verbatim>\<open>GET\<close> request whose path does not contain
  \<^verbatim>\<open>../\<close> (the path not empty, so that the handler returns) carries
  \<^verbatim>\<open>Server: markdownd/0.0.6\<close> and \<^verbatim>\<open>X-Frame-Options: DENY\<close>, the not-found responses of
  all later exits included: the trace starts with the two additions and nothing later
  removes them. The not-found responses of the method guard and of the \<^verbatim>\<open>../\<close> guard
  carry only the two headers that \<^verbatim>\<open>http.NotFound\<close> sets.
\<close>

theorem headers_after_guards:
  "(Method r = ''GET'' \<and> \<not> Contains (Path r) ''../'' \<and> Path r \<noteq> [] \<longrightarrow>
      (\<exists>tr. ServeHTTP fl w s r = Returned (headers0 @ tr)) \<and>
      (''Server'', serverheader) \<in> set (carried (response (ServeHTTP fl w s r))) \<and>
      (''X-Frame-Options'', ''DENY'') \<in> set (carried (response (ServeHTTP fl w s r)))) \<and>
   (Method r \<noteq> ''GET'' \<or> Contains (Path r) ''../'' \<longrightarrow>
      ServeHTTP fl w s r = Returned [NotFound] \<and>
      carried (response (ServeHTTP fl w s r)) =
        [(''Content-Type'', ''text/plain; charset=utf-8''), (''X-Content-Type-Options'', ''nosniff'')])"
proof (intro conjI impI)
  assume g: "Method r = ''GET'' \<and> \<not> Contains (Path r) ''../'' \<and> Path r \<noteq> []"
  then have "\<exists>tr. ServeHTTP fl w s r = Returned (headers0 @ tr)"
    by (simp add: ServeHTTP_def split: prod.splits option.splits)
  then obtain tr where tr: "ServeHTTP fl w s r = Returned (headers0 @ tr)" ..
  then have R: "response (ServeHTTP fl w s r) = foldl apply_event writer1 tr"
    by (simp add: response_def foldl_headers0)
  show "\<exists>tr. ServeHTTP fl w s r = Returned (headers0 @ tr)" using tr by blast
  show "(''Server'', serverheader) \<in> set (carried (response (ServeHTTP fl w s r)))"
    unfolding R by (rule header_kept) (simp_all add: writer1_def writer0_def)
  show "(''X-Frame-Options'', ''DENY'') \<in> set (carried (response (ServeHTTP fl w s r)))"
    unfolding R by (rule header_kept) (simp_all add: writer1_def writer0_def)
next
  assume "Method r \<noteq> ''GET'' \<or> Contains (Path r) ''../''"
  then show N: "ServeHTTP fl w s r = Returned [NotFound]"
    by (auto simp: ServeHTTP_def)
  show "carried (response (ServeHTTP fl w s r)) =
        [(''Content-Type'', ''text/plain; charset=utf-8''), (''X-Content-Type-Options'', ''nosniff'')]"
    unfolding N
    by (simp add: response_def carried_def writer0_def Error_def WriteBytes_def WriteHeader_def
        HeaderSet_def Let_def)
qed


theorem headers_after_guards_witness:
  "Method (get ''/nope'' []) = ''GET'' \<and> \<not> Contains (Path (get ''/nope'' [])) ''../'' \<and>
   Path (get ''/nope'' []) \<noteq> [] \<and>
   status (response (ServeHTTP default_flags site www (get ''/nope'' []))) = Some 404 \<and>
   (''Server'', serverheader) \<in> set (carried (response (ServeHTTP default_flags site www (get ''/nope'' [])))) \<and>
   (''X-Frame-Options'', ''DENY'') \<in> set (carried (response (ServeHTTP default_flags site www (get ''/nope'' [])))) \<and>
   Method (post ''/index.md'') \<noteq> ''GET'' \<and>
   ServeHTTP default_flags site www (post ''/index.md'') = Returned [NotFound]"
proof -
  have a: "Method (get ''/nope'' []) = ''GET'' \<and> \<not> Contains (Path (get ''/nope'' [])) ''../'' \<and>
           Path (get ''/nope'' []) \<noteq> []" by code_simp
  have b: "Method (post ''/index.md'') \<noteq> ''GET''" by code_simp
  have c: "status (response (ServeHTTP default_flags site www (get ''/nope'' []))) = Some 404"
    by code_simp
  note T1 = headers_after_guards [of "get ''/nope'' []" default_flags site www]
  note T2 = headers_after_guards [of "post ''/index.md''" default_flags site www]
  from T1 a have 1:
    "(''Server'', serverheader) \<in> set (carried (response (ServeHTTP default_flags site www (get ''/nope'' [])))) \<and>
     (''X-Frame-Options'', ''DENY'') \<in> set (carried (response (ServeHTTP default_flags site www (get ''/nope'' []))))"
    by blast
  from T2 b have 2: "ServeHTTP default_flags site www (post ''/index.md'') = Returned [NotFound]"
    by blast
  show ?thesis using a b c 1 2 by blast
qed

text \<open>
  Claim C9, as stated: the handler sets \<^verbatim>\<open>Content-Type\<close> in the raw-HTML branch and in the
  rendered-markdown branch. A request for \<^verbatim>\<open>/index.md\<close> without \<^verbatim>\<open>raw\<close> takes the
  rendered-markdown branch (the renderer's output is written), and no \<^verbatim>\<open>Content-Type\<close> is
  set in its trace or carried by the response.
\<close>

theorem rendered_markdown_without_content_type:
  "ServeHTTP default_flags site www (get ''/index.md'' []) =
     Returned [HeaderAdd ''Server'' ''markdownd/0.0.6'', HeaderAdd ''X-Frame-Options'' ''DENY'',
       Open ''/srv/www/index.md'', EvalSymlinks ''/srv/www/index.md'',
       ReadFile ''/srv/www/index.md'', Write (markdownCommon site ''# Hi'')] \<and>
   \<not> list_ex sets_content_type (events (ServeHTTP default_flags site www (get ''/index.md'' []))) \<and>
   carried (response (ServeHTTP default_flags site www (get ''/index.md'' []))) =
     [(''Server'', ''markdownd/0.0.6''), (''X-Frame-Options'', ''DENY'')]"
  by code_simp

text \<open>
  Claim C9, amended. The handler sets \<^verbatim>\<open>Content-Type\<close> in exactly one branch, the raw-HTML
  branch: its trace holds such an addition exactly when the resolved path opened, passed
  both guards, was read, and ends in \<^verbatim>\<open>.html\<close> or holds bytes classified as
  \<^verbatim>\<open>text/html\<close>; the value is then \<^verbatim>\<open>text/html\<close>. In both markdown branches (source
  and rendered) and on the way to \<^verbatim>\<open>http.ServeFile\<close> the handler sets none.
\<close>

theorem content_type_only_raw_html:
  "(list_ex sets_content_type (events (ServeHTTP fl w s r)) \<longleftrightarrow>
    (\<exists>p b. resolved fl w s r = Some p \<and> openErr w p = None \<and> snd (fileisgood w p) \<and>
           HasPrefix p (RootString s) \<and> readFile w p = Some b \<and>
           (HasSuffix p ''.html'' \<or> HasPrefix (detectContentType w b) ''text/html''))) \<and>
   (\<forall>e \<in> set (events (ServeHTTP fl w s r)).
      sets_content_type e \<longrightarrow> e = HeaderAdd ''Content-Type'' ''text/html'')"
proof -
  have only: "v = ''text/html''" if "HeaderAdd ''Content-Type'' v \<in> set (events (ServeHTTP fl w s r))" for v
  proof (cases "resolved fl w s r")
    case None
    then show ?thesis
      using ServeHTTP_unresolved_shape [OF None] that
      by (auto simp: headers0_def dest: probe_not_header)
  next
    case (Some p)
    from ServeHTTP_resolved_probe [OF Some] obtain pre where
      S: "ServeHTTP fl w s r = Returned (headers0 @ pre @ serve w s r p)"
      and pre: "\<forall>a \<in> set pre. probe a" by blast
    have ev: "HeaderAdd ''Content-Type'' v \<in> set (serve w s r p)"
      using S pre that by (auto simp: headers0_def dest: probe_not_header)
    show ?thesis
    proof (cases rule: serve_cases [of w s r p])
      case (rejected q)
      then show ?thesis using ev by (auto dest: probe_not_header)
    next
      case (unreadable q)
      then show ?thesis using ev by (auto dest: probe_not_header)
    next
      case (rendered q b)
      then show ?thesis using ev render_content_type [of v w r p b]
        by (auto dest: probe_not_header)
    qed
  qed
  have "e = HeaderAdd ''Content-Type'' ''text/html''"
    if "e \<in> set (events (ServeHTTP fl w s r))" "sets_content_type e" for e
  proof (cases e)
    case (HeaderAdd k v)
    then have "k = ''Content-Type''" using that(2) by simp
    then show ?thesis using only [of v] that(1) HeaderAdd by simp
  qed (use that(2) in simp_all)
  then show ?thesis
    using content_type_header_iff [of fl w s r] by (simp add: list_ex_content_type)
qed

theorem content_type_only_raw_html_witness:
  "list_ex sets_content_type (events (ServeHTTP default_flags site www (get ''/page.html'' []))) \<and>
   (\<exists>p b. resolved default_flags site www (get ''/page.html'' []) = Some p \<and> openErr site p = None \<and>
          snd (fileisgood site p) \<and> HasPrefix p (RootString www) \<and> readFile site p = Some b \<and>
          (HasSuffix p ''.html'' \<or> HasPrefix (detectContentType site b) ''text/html'')) \<and>
   HeaderAdd ''Content-Type'' ''text/html''
     \<in> set (events (ServeHTTP default_flags site www (get ''/page.html'' [])))"
proof -
  have a: "list_ex sets_content_type (events (ServeHTTP default_flags site www (get ''/page.html'' [])))"
    by code_simp
  have b: "HeaderAdd ''Content-Type'' ''text/html''
             \<in> set (events (ServeHTTP default_flags site www (get ''/page.html'' [])))"
    by code_simp
  from content_type_only_raw_html [of default_flags site www "get ''/page.html'' []"] a b
  show ?thesis by blast
qed

text \<open>
  Claim C10. A request with a method other than \<^verbatim>\<open>GET\<close>, on any path, to any server, is
  answered with status 404 and the body \<^verbatim>\<open>404 page not found\<close> and a newline: the same
  status and body as a \<^verbatim>\<open>GET\<close> request whose resolved path does not open.
\<close>

theorem non_get_like_missing:
  assumes "Method r1 \<noteq> ''GET''"
    and "resolved fl w s r2 = Some p" "openErr w p = Some err"
  shows "status (response (ServeHTTP fl1 w1 s1 r1)) = Some 404 \<and>
         status (response (ServeHTTP fl w s r2)) = Some 404 \<and>
         body (response (ServeHTTP fl1 w1 s1 r1)) = ''404 page not found'' @ [CHR 0x0A] \<and>
         body (response (ServeHTTP fl w s r2)) = body (response (ServeHTTP fl1 w1 s1 r1))"
proof -
  have 1: "ServeHTTP fl1 w1 s1 r1 = Returned [NotFound]"
    using assms(1) by (simp add: ServeHTTP_def)
  from ServeHTTP_resolved_probe [OF assms(2)] obtain pre where
    S: "ServeHTTP fl w s r2 = Returned (headers0 @ pre @ serve w s r2 p)"
    and pre: "\<forall>a \<in> set pre. probe a" by blast
  have sv: "serve w s r2 p = [Open p, NotFound]"
    using assms(3) by (simp add: serve_def)
  have 2: "response (ServeHTTP fl w s r2) = apply_event writer1 NotFound"
    using response_after_probes [OF pre, of "[Open p, NotFound]"] S sv by simp
  have 3: "response (ServeHTTP fl1 w1 s1 r1) = apply_event writer0 NotFound"
    using 1 by (simp add: response_def)
  show ?thesis
    using NotFound_first [of writer1] NotFound_first [of writer0]
    by (simp add: 2 3 writer0_def writer1_def)
qed


theorem non_get_like_missing_witness:
  "Method (post ''/index.md'') \<noteq> ''GET'' \<and>
   resolved default_flags site www (get ''/nope'' []) = Some ''/srv/www/nope'' \<and>
   openErr site ''/srv/www/nope'' = Some ''open /srv/www/nope: no such file or directory'' \<and>
   status (response (ServeHTTP default_flags site www (post ''/index.md''))) = Some 404 \<and>
   status (response (ServeHTTP default_flags site www (get ''/nope'' []))) = Some 404 \<and>
   body (response (ServeHTTP default_flags site www (get ''/nope'' [])))
     = body (response (ServeHTTP default_flags site www (post ''/index.md'')))"
proof -
  have a: "Method (post ''/index.md'') \<noteq> ''GET''" by code_simp
  have b: "resolved default_flags site www (get ''/nope'' []) = Some ''/srv/www/nope''" by code_simp
  have c: "openErr site ''/srv/www/nope'' = Some ''open /srv/www/nope: no such file or directory''"
    by code_simp
  from non_get_like_missing [OF a b c, of default_flags site www] a b c
  show ?thesis by blast
qed

end
